(* ===== verification/Prelude.thy ===== *)
theory Prelude
  imports Main "HOL-Library.Word" "HOL-Library.Multiset"
begin

text \<open>
  Shared vocabulary of the development: machine integers at their Rust width, panics as
  values of a sum type, the build profile that decides what an arithmetic overflow does, and
  the small lemmas on results, lists and words that the component theories rely on.
\<close>

unbundle bit_operations_syntax

named_theorems res_simps \<open>unfolding rules of the result monad and the checked operations\<close>

section \<open>Machine integers, panics and results\<close>

type_synonym u8 = "8 word"
type_synonym u32 = "32 word"
type_synonym u64 = "64 word"
type_synonym i32 = "32 word"
type_synonym i64 = "64 word"

text \<open>
  The reasons for which the code of this repository can panic: an index out of bounds, an
  arithmetic overflow that the build checks, or an \<open>unwrap\<close>/\<open>expect\<close>/\<open>panic!\<close> with its
  message.
\<close>

datatype panic =
    Index_out_of_bounds
  | Add_overflow
  | Sub_overflow
  | Mul_overflow
  | Neg_overflow
  | Shl_overflow
  | Expect_failed string

type_synonym 'a res = "panic + 'a"

abbreviation Panic :: "panic \<Rightarrow> 'a res" where
  "Panic \<equiv> Inl"

abbreviation Ok :: "'a \<Rightarrow> 'a res" where
  "Ok \<equiv> Inr"

definition and_then :: "'a res \<Rightarrow> ('a \<Rightarrow> 'b res) \<Rightarrow> 'b res" where
  "and_then m f = (case m of Inl p \<Rightarrow> Inl p | Inr x \<Rightarrow> f x)"

lemma and_then_Panic [simp, res_simps]: "and_then (Panic p) f = Panic p"
  by (simp add: and_then_def)

lemma and_then_Ok [simp, res_simps]: "and_then (Ok x) f = f x"
  by (simp add: and_then_def)

lemma and_then_cong [fundef_cong]:
  "m = m' \<Longrightarrow> (\<And>x. m' = Ok x \<Longrightarrow> f x = g x) \<Longrightarrow> and_then m f = and_then m' g"
  by (auto simp: and_then_def split: sum.splits)

lemma and_then_eq_Ok [simp]:
  "and_then m f = Ok y \<longleftrightarrow> (\<exists>x. m = Ok x \<and> f x = Ok y)"
  by (auto simp: and_then_def split: sum.splits)

lemma and_then_eq_Panic:
  "and_then m f = Panic p \<longleftrightarrow> m = Panic p \<or> (\<exists>x. m = Ok x \<and> f x = Panic p)"
  by (auto simp: and_then_def split: sum.splits)

definition is_ok :: "'a res \<Rightarrow> bool" where
  "is_ok r \<longleftrightarrow> (case r of Inl _ \<Rightarrow> False | Inr _ \<Rightarrow> True)"

lemma is_ok_simps [simp]: "is_ok (Ok x)" "\<not> is_ok (Panic p)"
  by (simp_all add: is_ok_def)

text \<open>\<open>r.expect(msg)\<close> and \<open>r.unwrap()\<close>, on a result or option of which only success matters.\<close>

definition expect :: "string \<Rightarrow> bool \<Rightarrow> unit res" where
  "expect msg ok = (if ok then Ok () else Panic (Expect_failed msg))"

definition expect_some :: "string \<Rightarrow> 'a option \<Rightarrow> 'a res" where
  "expect_some msg r = (case r of None \<Rightarrow> Panic (Expect_failed msg) | Some x \<Rightarrow> Ok x)"

text \<open>
  Cargo's \<open>dev\<close> and \<open>test\<close> profiles check integer overflow and panic, its \<open>release\<close> profile
  wraps. Both are modelled: every operation that can overflow takes the profile.
\<close>

datatype profile = Debug | Release

definition in_i64 :: "int \<Rightarrow> bool" where
  "in_i64 k \<longleftrightarrow> - (2 ^ 63) \<le> k \<and> k < 2 ^ 63"

definition add_i64 :: "profile \<Rightarrow> i64 \<Rightarrow> i64 \<Rightarrow> i64 res" where
  "add_i64 pf a b =
     (if pf = Debug \<and> \<not> in_i64 (sint a + sint b) then Panic Add_overflow else Ok (a + b))"

definition abs_i64 :: "profile \<Rightarrow> i64 \<Rightarrow> i64 res" where
  "abs_i64 pf a =
     (if pf = Debug \<and> sint a = - (2 ^ 63) then Panic Neg_overflow
      else Ok (if sint a < 0 then - a else a))"

definition add_u64 :: "profile \<Rightarrow> u64 \<Rightarrow> u64 \<Rightarrow> u64 res" where
  "add_u64 pf a b =
     (if pf = Debug \<and> 2 ^ 64 \<le> unat a + unat b then Panic Add_overflow else Ok (a + b))"

definition sub_u64 :: "profile \<Rightarrow> u64 \<Rightarrow> u64 \<Rightarrow> u64 res" where
  "sub_u64 pf a b = (if pf = Debug \<and> a < b then Panic Sub_overflow else Ok (a - b))"

definition mul_u64 :: "profile \<Rightarrow> u64 \<Rightarrow> u64 \<Rightarrow> u64 res" where
  "mul_u64 pf a b =
     (if pf = Debug \<and> 2 ^ 64 \<le> unat a * unat b then Panic Mul_overflow else Ok (a * b))"

text \<open>
  \<open>x << s\<close> on a \<open>u64\<close>: a shift amount of 64 or more is an overflow, which a release build
  resolves by masking the amount with 63.
\<close>

definition shl_u64 :: "profile \<Rightarrow> u64 \<Rightarrow> nat \<Rightarrow> u64 res" where
  "shl_u64 pf x s =
     (if pf = Debug \<and> 64 \<le> s then Panic Shl_overflow else Ok (push_bit (s mod 64) x))"

lemma add_i64_Release [simp]: "add_i64 Release a b = Ok (a + b)"
  by (simp add: add_i64_def)

lemma add_i64_in_range: "in_i64 (sint a + sint b) \<Longrightarrow> add_i64 pf a b = Ok (a + b)"
  by (simp add: add_i64_def)

lemma add_i64_eq_Ok: "add_i64 pf a b = Ok c \<Longrightarrow> c = a + b"
  by (auto simp: add_i64_def split: if_splits)

lemma shl_u64_small: "s < 64 \<Longrightarrow> shl_u64 pf x s = Ok (push_bit s x)"
  by (simp add: shl_u64_def)

lemma sint_add_in_range:
  fixes a b :: i64
  assumes "in_i64 (sint a + sint b)"
  shows "sint (a + b) = sint a + sint b"
proof -
  have "signed_take_bit 63 (sint a + sint b) = sint a + sint b"
    using assms by (intro signed_take_bit_int_eq_self) (auto simp: in_i64_def)
  then show ?thesis
    by (simp add: sint_word_ariths)
qed

lemma in_i64_sint [simp]: "in_i64 (sint (w :: i64))"
  using sint_range_size [of w] by (simp add: in_i64_def word_size)

section \<open>Lists\<close>

lemma sum_list_nat_update:
  "i < length xs \<Longrightarrow>
   (\<Sum>x \<leftarrow> xs[i := y]. f x) + f (xs ! i) = (\<Sum>x \<leftarrow> xs. f x :: nat) + f y"
proof (induction xs arbitrary: i)
  case Nil
  then show ?case by simp
next
  case (Cons x xs)
  then show ?case by (cases i) auto
qed

section \<open>Unsigned words\<close>

lemma unat_drop_bit_less:
  fixes w :: "'a::len word"
  assumes "w \<noteq> 0" "0 < n"
  shows "unat (drop_bit n w) < unat w"
proof -
  have "0 < unat w" using assms(1) by (simp add: unat_gt_0)
  moreover have "unat (drop_bit n w) = unat w div 2 ^ n"
    by (simp only: unat_drop_bit_eq) (simp add: drop_bit_eq_div)
  moreover have "(1::nat) < 2 ^ n" using assms(2) by (rule one_less_power [rotated]) simp
  ultimately show ?thesis by simp
qed

lemma bit_beyond_64: "64 \<le> k \<Longrightarrow> \<not> bit (w :: u64) k"
  using bit_imp_le_length [of w k] by auto

lemma bit63_sint: "bit (n :: i64) 63 \<longleftrightarrow> sint n < 0"
  using bit_last_iff [of n] by simp

lemma sint_uint_bit63:
  "sint (n :: i64) = (if bit n 63 then uint n - 2 ^ 64 else uint n)"
proof -
  have "take_bit 64 (uint n) = uint n"
    using uint_lt2p [of n] by (simp add: take_bit_int_eq_self)
  then show ?thesis
    by (simp add: sint_uint signed_take_bit_eq_take_bit_minus bit_uint_iff)
qed

lemma sint_bounds_i64: "- (2 ^ 63) \<le> sint (v :: i64)" "sint v < 2 ^ 63"
  using sint_ge [of v] sint_lt [of v] by simp_all

lemma sint_nonneg_eq: "0 \<le> sint (v :: i64) \<Longrightarrow> sint v = uint v"
  by (subst sint_uint_bit63) (simp add: bit63_sint)

lemma sint_nonneg_iff: "0 \<le> sint (v :: i64) \<longleftrightarrow> uint v < 2 ^ 63"
proof (cases "0 \<le> sint v")
  case True
  with sint_bounds_i64(2) [of v] sint_nonneg_eq [OF True] show ?thesis by linarith
next
  case False
  then have "sint v = uint v - 2 ^ 64"
    by (subst sint_uint_bit63) (simp add: bit63_sint)
  with sint_bounds_i64(1) [of v] have "2 ^ 63 \<le> uint v" by simp
  with False show ?thesis by auto
qed

end
