(* ===== verification/Krafka_Varint.thy ===== *)
theory Krafka_Varint
  imports Prelude
begin

text \<open>
  The zig-zag LEB128 codec of \<open>stream-test-krafka\<close>: \<open>read_varint\<close> and \<open>write_varint\<close> of
  \<open>src/bin/processor.rs\<close>, which \<open>producer.rs\<close> and \<open>consumer.rs\<close> repeat word for word (Codec_Copies).
  A byte slice that the reader advances is a byte list that is returned with the value; a
  \<open>Vec<u8>\<close> that the writer appends to is a byte list that is returned extended.
\<close>

section \<open>The code\<close>

text \<open>
  The loop of \<open>read_varint\<close>: \<open>reader[0]\<close> panics on an empty slice. The shift is 0, 7, ..., 63
  when the \<open><<\<close> is executed, so it never overflows.
\<close>

fun read_loop :: "u64 \<Rightarrow> nat \<Rightarrow> u8 list \<Rightarrow> (u64 \<times> u8 list) res" where
  "read_loop val shift [] = Panic Index_out_of_bounds"
| "read_loop val shift (b # reader) =
     (let val = val OR push_bit shift (ucast (b AND 0x7F))
      in if b AND 0x80 = 0 then Ok (val, reader)
         else if 64 \<le> shift + 7 then Ok (val, reader)
         else read_loop val (shift + 7) reader)"

definition unzigzag :: "u64 \<Rightarrow> i64" where
  "unzigzag val = drop_bit 1 val XOR - (val AND 1)"

definition read_varint :: "u8 list \<Rightarrow> (i64 \<times> u8 list) res" where
  "read_varint reader =
     and_then (read_loop 0 0 reader) (\<lambda>(val, reader). Ok (unzigzag val, reader))"

definition zigzag :: "i64 \<Rightarrow> u64" where
  "zigzag n = push_bit 1 n XOR signed_drop_bit 63 n"

function write_loop :: "u8 list \<Rightarrow> u64 \<Rightarrow> u8 list" where
  "write_loop buf val =
     (if 0x80 \<le> val then write_loop (buf @ [ucast val OR 0x80]) (drop_bit 7 val)
      else buf @ [ucast val])"
  by pat_completeness auto
termination
  by (relation "measure (\<lambda>(buf, val). unat val)")
    (auto intro!: unat_drop_bit_less simp: word_le_nat_alt)

definition write_varint :: "u8 list \<Rightarrow> i64 \<Rightarrow> u8 list" where
  "write_varint buf n = write_loop buf (zigzag n)"

declare write_loop.simps [simp del]

section \<open>Zig-zag\<close>

lemma signed_drop_bit_63: "signed_drop_bit 63 (n :: i64) = (if bit n 63 then - 1 else 0)"
  by (rule bit_word_eqI) (auto simp: bit_simps not_less_eq_eq bit_beyond_64 split: if_splits)

lemma and_one_word: "(v :: u64) AND 1 = (if bit v 0 then 1 else 0)"
proof (rule bit_word_eqI)
  fix k assume "k < LENGTH(64)"
  then show "bit (v AND 1) k = bit (if bit v 0 then 1 else (0 :: u64)) k"
    by (cases k) (auto simp: bit_and_iff bit_1_iff)
qed

lemma bit_zigzag:
  "bit (zigzag n) k \<longleftrightarrow> k < 64 \<and> ((0 < k \<and> bit n (k - 1)) \<noteq> bit n 63)"
  by (cases "k < 64"; cases "bit n 63")
    (auto simp only: zigzag_def signed_drop_bit_63 bit_xor_iff bit_push_bit_iff if_True if_False,
      auto simp: bit_beyond_64)

lemma bit_unzigzag: "bit (unzigzag v) k \<longleftrightarrow> k < 64 \<and> (bit v (Suc k) \<noteq> bit v 0)"
  by (cases "k < 64"; cases "bit v 0")
    (auto simp only: unzigzag_def and_one_word bit_xor_iff bit_drop_bit_eq if_True if_False,
      auto simp: bit_beyond_64)

lemma unzigzag_zigzag [simp]: "unzigzag (zigzag n) = n"
proof (rule bit_word_eqI)
  fix k assume "k < LENGTH(64)"
  then show "bit (unzigzag (zigzag n)) k = bit n k"
    by (cases "k = 63") (auto simp: bit_zigzag bit_unzigzag)
qed

lemma zigzag_unzigzag [simp]: "zigzag (unzigzag v) = v"
proof (rule bit_word_eqI)
  fix k assume "k < LENGTH(64)"
  then show "bit (zigzag (unzigzag v)) k = bit v k"
    by (cases k) (auto simp: bit_zigzag bit_unzigzag bit_beyond_64)
qed

lemma zigzag_of_int:
  "zigzag n = (if 0 \<le> sint n then word_of_int (2 * sint n) else word_of_int (- 2 * sint n - 1))"
proof -
  have "push_bit 1 n = word_of_int (2 * sint n)"
    by simp
  then show ?thesis
    by (simp only: zigzag_def signed_drop_bit_63 bit63_sint)
      (simp add: not_eq_complement)
qed

lemma uint_word_of_int_u64: "0 \<le> k \<Longrightarrow> k < 2 ^ 64 \<Longrightarrow> uint (word_of_int k :: u64) = k"
  by (simp only: uint_word_of_int_eq) (simp add: take_bit_int_eq_self)

lemma uint_zigzag:
  "uint (zigzag n) = (if 0 \<le> sint n then 2 * sint n else - 2 * sint n - 1)"
proof (cases "0 \<le> sint n")
  case True
  then have "uint (zigzag n) = uint (word_of_int (2 * sint n) :: u64)"
    by (simp only: zigzag_of_int if_True)
  also have "\<dots> = 2 * sint n"
    using True sint_lt [of n] by (intro uint_word_of_int_u64) simp_all
  finally show ?thesis using True by simp
next
  case False
  then have "uint (zigzag n) = uint (word_of_int (- 2 * sint n - 1) :: u64)"
    by (simp only: zigzag_of_int if_False)
  also have "\<dots> = - 2 * sint n - 1"
    using False sint_ge [of n] by (intro uint_word_of_int_u64) simp_all
  finally show ?thesis using False by simp
qed

section \<open>Bytes of a group\<close>

lemma bit_0x7F [simp]: "bit (0x7F :: int) k \<longleftrightarrow> k < 7"
proof -
  have "mask 7 = (0x7F :: int)" by (simp add: mask_eq_exp_minus_1)
  then show ?thesis by (metis bit_mask_iff possible_bit_int)
qed

lemma bit_0x80 [simp]: "bit (0x80 :: int) k \<longleftrightarrow> k = 7"
proof -
  have "(0x80 :: int) = 2 ^ 7" by simp
  then show ?thesis by (metis bit_exp_iff possible_bit_int)
qed

lemma and_0x80_eq_0: "(b :: u8) AND 0x80 = 0 \<longleftrightarrow> \<not> bit b 7"
proof
  assume "b AND 0x80 = 0"
  then have "\<not> bit (b AND 0x80) 7" by simp
  then show "\<not> bit b 7" by (simp add: bit_and_iff)
next
  assume "\<not> bit b 7"
  then show "b AND 0x80 = 0" by (intro bit_word_eqI) (auto simp: bit_and_iff)
qed

lemma less_0x80_iff: "(v :: u64) < 0x80 \<longleftrightarrow> (\<forall>k. bit v k \<longrightarrow> k < 7)"
proof -
  have "v < 0x80 \<longleftrightarrow> unat v < 2 ^ 7"
    by (simp add: word_less_nat_alt)
  also have "\<dots> \<longleftrightarrow> take_bit 7 (unat v) = unat v"
    by (simp add: take_bit_nat_eq_self_iff)
  also have "\<dots> \<longleftrightarrow> take_bit 7 v = v"
    by (simp add: word_eq_iff_unsigned [where ?'a = nat] unsigned_take_bit_eq)
  also have "\<dots> \<longleftrightarrow> (\<forall>k. bit v k \<longrightarrow> k < 7)"
    by (simp add: bit_eq_iff bit_take_bit_iff) (use bit_beyond_64 not_le in blast)
  finally show ?thesis .
qed

lemma continuation_byte:
  "(ucast (v :: u64) OR 0x80 :: u8) AND 0x80 \<noteq> 0"
  "ucast ((ucast v OR 0x80 :: u8) AND 0x7F) = v AND (0x7F :: u64)"
proof -
  show "(ucast v OR 0x80 :: u8) AND 0x80 \<noteq> 0"
    by (simp add: and_0x80_eq_0 bit_or_iff)
  show "ucast ((ucast v OR 0x80 :: u8) AND 0x7F) = v AND (0x7F :: u64)"
    by (rule bit_word_eqI) (auto simp add: bit_and_iff bit_or_iff bit_ucast_iff)
qed

lemma final_byte:
  assumes "(v :: u64) < 0x80"
  shows "(ucast v :: u8) AND 0x80 = 0" "ucast ((ucast v :: u8) AND 0x7F) = v"
proof -
  show "(ucast v :: u8) AND 0x80 = 0"
    using assms by (auto simp: and_0x80_eq_0 less_0x80_iff bit_ucast_iff)
  show "ucast ((ucast v :: u8) AND 0x7F) = v"
    by (rule bit_word_eqI)
      (use assms in \<open>fastforce simp: bit_and_iff bit_ucast_iff less_0x80_iff\<close>)
qed

lemma push_bit_split7:
  "push_bit s (v AND 0x7F) OR push_bit (s + 7) (drop_bit 7 v) = push_bit s (v :: u64)"
proof (rule bit_word_eqI)
  fix k assume "k < LENGTH(64)"
  then show "bit (push_bit s (v AND 0x7F) OR push_bit (s + 7) (drop_bit 7 v)) k = bit (push_bit s v) k"
    by (cases "s + 7 \<le> k")
      (auto simp: bit_or_iff bit_and_iff bit_push_bit_iff bit_drop_bit_eq)
qed

section \<open>Writing\<close>

text \<open>Induction over the 7-bit groups of a word, the recursion of both loops.\<close>

lemma group_induct [case_names small large]:
  fixes v :: u64
  assumes small: "\<And>v. v < 0x80 \<Longrightarrow> P v"
    and large: "\<And>v. 0x80 \<le> v \<Longrightarrow> P (drop_bit 7 v) \<Longrightarrow> P v"
  shows "P v"
proof (induction "unat v" arbitrary: v rule: less_induct)
  case less
  show ?case
  proof (cases "v < 0x80")
    case True
    then show ?thesis by (rule small)
  next
    case False
    then have ge: "0x80 \<le> v" by (rule leI)
    then have "v \<noteq> 0" by auto
    then have "unat (drop_bit 7 v) < unat v" by (rule unat_drop_bit_less) simp
    then have "P (drop_bit 7 v)" by (rule less)
    with ge show ?thesis by (rule large)
  qed
qed

lemma write_loop_small: "v < 0x80 \<Longrightarrow> write_loop buf v = buf @ [ucast v]"
  by (subst write_loop.simps) (rule if_not_P, simp only: not_le)

lemma write_loop_large:
  "0x80 \<le> v \<Longrightarrow> write_loop buf v = write_loop (buf @ [ucast v OR 0x80]) (drop_bit 7 v)"
  by (subst write_loop.simps) simp

lemma write_loop_append: "write_loop buf v = buf @ write_loop [] v"
proof (induction v arbitrary: buf rule: group_induct)
  case (small v)
  then show ?case by (simp add: write_loop_small)
next
  case (large v)
  have "write_loop [] v = [ucast v OR 0x80] @ write_loop [] (drop_bit 7 v)"
    using large(1) by (simp only: write_loop_large append_Nil) (rule large(2))
  moreover have "write_loop buf v = (buf @ [ucast v OR 0x80]) @ write_loop [] (drop_bit 7 v)"
    using large(1) by (simp only: write_loop_large large(2) [of "buf @ [ucast v OR 0x80]"])
  ultimately show ?case by simp
qed

lemma write_loop_nil_large:
  "0x80 \<le> v \<Longrightarrow> write_loop [] v = (ucast v OR 0x80) # write_loop [] (drop_bit 7 v)"
  by (simp only: write_loop_large write_loop_append [of "[] @ [ucast v OR 0x80]"]) simp

lemma write_varint_append: "write_varint buf n = buf @ write_varint [] n"
  by (simp add: write_varint_def write_loop_append [of buf])

lemma unat_drop_bit_7: "unat (drop_bit 7 (v :: u64)) = unat v div 128"
  by (simp only: unat_drop_bit_eq) (simp add: drop_bit_eq_div)

section \<open>Reading back\<close>

lemma read_loop_final:
  "(b :: u8) AND 0x80 = 0 \<Longrightarrow>
   read_loop acc s (b # bs) = Ok (acc OR push_bit s (ucast (b AND 0x7F)), bs)"
  by (simp add: Let_def)

lemma read_loop_continue:
  "(b :: u8) AND 0x80 \<noteq> 0 \<Longrightarrow> s + 7 < 64 \<Longrightarrow>
   read_loop acc s (b # bs) = read_loop (acc OR push_bit s (ucast (b AND 0x7F))) (s + 7) bs"
  by (simp add: Let_def)

lemma read_loop_last:
  "64 \<le> s + 7 \<Longrightarrow> read_loop acc s (b # bs) = Ok (acc OR push_bit s (ucast (b AND 0x7F)), bs)"
  by (simp add: Let_def)

lemma room_for_continuation:
  assumes "0x80 \<le> (v :: u64)" "unat v < 2 ^ (64 - s)" "s < 64"
  shows "s + 7 < 64" and "unat (drop_bit 7 v) < 2 ^ (64 - (s + 7))"
proof -
  have "(2::nat) ^ 7 \<le> unat v"
    using assms(1) by (simp add: word_le_nat_alt)
  with assms(2) have "(2::nat) ^ 7 < 2 ^ (64 - s)" by linarith
  then have "7 < 64 - s" by (rule power_less_imp_less_exp [rotated]) simp
  then show "s + 7 < 64" by simp
  then have "64 - s = (64 - (s + 7)) + 7" by simp
  then have "(2::nat) ^ (64 - s) = 2 ^ (64 - (s + 7)) * 2 ^ 7" by (simp only: power_add)
  with assms(2) show "unat (drop_bit 7 v) < 2 ^ (64 - (s + 7))"
    by (simp add: unat_drop_bit_7 less_mult_imp_div_less)
qed

lemma read_loop_write_loop:
  assumes "unat v < 2 ^ (64 - s)" "s < 64"
  shows "read_loop acc s (write_loop [] v @ rest) = Ok (acc OR push_bit s v, rest)"
  using assms
proof (induction v arbitrary: acc s rule: group_induct)
  case (small v)
  then show ?case
    by (simp add: write_loop_small read_loop_final final_byte del: read_loop.simps)
next
  case (large v)
  note room = room_for_continuation [OF large(1) large(3) large(4)]
  have "read_loop acc s (write_loop [] v @ rest)
      = read_loop (acc OR push_bit s (v AND 0x7F)) (s + 7) (write_loop [] (drop_bit 7 v) @ rest)"
    using large(1) room(1) continuation_byte [of v]
    by (simp add: write_loop_nil_large read_loop_continue del: read_loop.simps)
  also have "\<dots> = Ok ((acc OR push_bit s (v AND 0x7F)) OR push_bit (s + 7) (drop_bit 7 v), rest)"
    by (rule large(2) [OF room(2) room(1)])
  also have "\<dots> = Ok (acc OR push_bit s v, rest)"
    by (simp only: or.assoc push_bit_split7)
  finally show ?case .
qed

lemma read_varint_write_varint:
  "read_varint (write_varint [] n @ rest) = Ok (n, rest)"
  using read_loop_write_loop [of "zigzag n" 0 0 rest] unsigned_less [of "zigzag n", where ?'a = nat]
  by (simp add: read_varint_def write_varint_def)

section \<open>Consumption, panics and truncation\<close>

text \<open>The code's \<open>b & 0x80 == 0\<close> as the bit it tests.\<close>

lemma continues_iff: "(b :: u8) AND 0x80 \<noteq> 0 \<longleftrightarrow> bit b 7"
  by (simp add: and_0x80_eq_0)

lemma read_loop_panic_iff:
  "s < 64 \<Longrightarrow> read_loop acc s bs = Panic p \<longleftrightarrow>
     p = Index_out_of_bounds \<and> (\<forall>b \<in> set bs. bit b 7) \<and> s + 7 * length bs < 64"
proof (induction bs arbitrary: acc s)
  case Nil
  then show ?case by auto
next
  case (Cons b bs)
  consider "\<not> bit b 7" | "bit b 7" "64 \<le> s + 7" | "bit b 7" "s + 7 < 64"
    by linarith
  then show ?case
  proof cases
    case 1
    then show ?thesis
      by (simp add: read_loop_final and_0x80_eq_0 del: read_loop.simps)
  next
    case 2
    then show ?thesis
      by (simp add: read_loop_last del: read_loop.simps)
  next
    case 3
    then have "read_loop acc s (b # bs)
        = read_loop (acc OR push_bit s (ucast (b AND 0x7F))) (s + 7) bs"
      by (intro read_loop_continue) (simp_all add: continues_iff)
    with 3 Cons.IH [of "s + 7"] show ?thesis by (auto simp del: read_loop.simps)
  qed
qed

lemma read_varint_panic_iff:
  "read_varint bs = Panic p \<longleftrightarrow>
     p = Index_out_of_bounds \<and> length bs < 10 \<and> (\<forall>b \<in> set bs. bit b 7)"
  unfolding read_varint_def and_then_eq_Panic
  by (auto simp: read_loop_panic_iff split: prod.splits)

lemma read_loop_consumes:
  "s < 64 \<Longrightarrow> read_loop acc s bs = Ok (v, rest) \<Longrightarrow>
   \<exists>used. bs = used @ rest \<and> used \<noteq> [] \<and> s + 7 * length used \<le> 70"
proof (induction bs arbitrary: acc s)
  case Nil
  then show ?case by simp
next
  case (Cons b bs)
  consider "\<not> bit b 7" | "bit b 7" "64 \<le> s + 7" | "bit b 7" "s + 7 < 64"
    by linarith
  then show ?case
  proof cases
    case 1
    with Cons.prems show ?thesis
      by (intro exI [of _ "[b]"])
        (simp add: read_loop_final and_0x80_eq_0 del: read_loop.simps)
  next
    case 2
    with Cons.prems show ?thesis
      by (intro exI [of _ "[b]"]) (simp add: read_loop_last del: read_loop.simps)
  next
    case 3
    with Cons.prems(2)
    have "read_loop (acc OR push_bit s (ucast (b AND 0x7F))) (s + 7) bs = Ok (v, rest)"
      by (simp add: read_loop_continue continues_iff del: read_loop.simps)
    from Cons.IH [OF 3(2) this] obtain used
      where "bs = used @ rest" "used \<noteq> []" "s + 7 + 7 * length used \<le> 70" by auto
    then show ?thesis by (intro exI [of _ "b # used"]) simp
  qed
qed

lemma read_varint_consumes:
  assumes "read_varint bs = Ok (n, rest)"
  shows "\<exists>used. bs = used @ rest \<and> used \<noteq> [] \<and> length used \<le> 10"
proof -
  from assms obtain v where "read_loop 0 0 bs = Ok (v, rest)"
    by (auto simp: read_varint_def)
  from read_loop_consumes [OF _ this] show ?thesis by fastforce
qed

lemma read_varint_shortens:
  "read_varint bs = Ok (n, rest) \<Longrightarrow> length rest < length bs"
  using read_varint_consumes by fastforce

text \<open>A strict prefix of an encoding holds continuation bytes only.\<close>

lemma write_loop_prefix:
  "k < length (write_loop [] v) \<Longrightarrow> b \<in> set (take k (write_loop [] v)) \<Longrightarrow> bit b 7"
proof (induction v arbitrary: k rule: group_induct)
  case (small v)
  then show ?case by (simp add: write_loop_small)
next
  case (large v)
  let ?c = "ucast v OR 0x80 :: u8" and ?w = "write_loop [] (drop_bit 7 v)"
  have eq: "write_loop [] v = ?c # ?w" by (rule write_loop_nil_large [OF large(1)])
  have c: "bit ?c 7" using continuation_byte(1) [of v] by (simp only: continues_iff)
  show ?case
  proof (cases k)
    case 0
    with large.prems show ?thesis by simp
  next
    case (Suc j)
    with large.prems(2) eq consider "b = ?c" | "b \<in> set (take j ?w)" by auto
    then show ?thesis
    proof cases
      case 1
      with c show ?thesis by (simp only:)
    next
      case 2
      moreover have "j < length ?w" using large.prems(1) Suc eq by simp
      ultimately show ?thesis by (intro large.IH)
    qed
  qed
qed

lemma write_loop_length_le:
  "unat v < 2 ^ (7 * k) \<Longrightarrow> 0 < k \<Longrightarrow> length (write_loop [] v) \<le> k"
proof (induction v arbitrary: k rule: group_induct)
  case (small v)
  then show ?case by (simp add: write_loop_small)
next
  case (large v)
  then obtain j where k: "k = Suc j" by (cases k) auto
  have "(2::nat) ^ (7 * k) = 2 ^ (7 * j) * 128"
    by (simp add: k power_add)
  with large.prems(1) have "unat v < 2 ^ (7 * j) * 128" by (simp only:)
  then have "unat (drop_bit 7 v) < 2 ^ (7 * j)"
    unfolding unat_drop_bit_7 by (rule less_mult_imp_div_less)
  moreover have "0 < j"
  proof (rule ccontr)
    assume "\<not> 0 < j"
    with \<open>unat v < 2 ^ (7 * j) * 128\<close> have "unat v < 128" by simp
    with large.hyps show False by (simp add: word_le_nat_alt)
  qed
  ultimately have "length (write_loop [] (drop_bit 7 v)) \<le> j" by (rule large.IH)
  with large(1) show ?case by (simp add: write_loop_nil_large k)
qed

lemma write_loop_nonempty: "write_loop [] v \<noteq> []"
  by (induction v rule: group_induct) (simp_all add: write_loop_small write_loop_nil_large)

lemma write_varint_length:
  "1 \<le> length (write_varint [] n) \<and> length (write_varint [] n) \<le> 10"
proof -
  have "unat (zigzag n) < 2 ^ 64" using unsigned_less [of "zigzag n", where ?'a = nat] by simp
  also have "(2::nat) ^ 64 \<le> 2 ^ (7 * 10)" by simp
  finally have "length (write_loop [] (zigzag n)) \<le> 10" by (rule write_loop_length_le) simp
  with write_loop_nonempty [of "zigzag n"] show ?thesis
    by (cases "write_loop [] (zigzag n)") (auto simp: write_varint_def)
qed

lemma read_varint_truncated:
  assumes "k < length (write_varint [] n)"
  shows "read_varint (take k (write_varint [] n)) = Panic Index_out_of_bounds"
  using assms write_varint_length [of n] write_loop_prefix [of k "zigzag n"]
  by (auto simp: read_varint_panic_iff write_varint_def)

section \<open>The writer is minimal\<close>

lemma read_loop_Cons_Ok:
  "read_loop acc s (b # bs) = Ok (v, rest) \<Longrightarrow>
   (v = acc OR push_bit s (ucast (b AND 0x7F)) \<and> rest = bs)
   \<or> read_loop (acc OR push_bit s (ucast (b AND 0x7F))) (s + 7) bs = Ok (v, rest)"
  by (auto simp: Let_def split: if_splits)

lemma read_loop_shortens:
  "read_loop acc s bs = Ok (v, rest) \<Longrightarrow> length rest < length bs"
proof (induction bs arbitrary: acc s)
  case Nil
  then show ?case by simp
next
  case (Cons b bs)
  from read_loop_Cons_Ok [OF Cons.prems]
  consider "rest = bs"
    | "read_loop (acc OR push_bit s (ucast (b AND 0x7F))) (s + 7) bs = Ok (v, rest)" by blast
  then show ?case
  proof cases
    case 2
    from Cons.IH [OF this] show ?thesis by simp
  qed simp
qed

lemma read_loop_bits:
  "read_loop acc s bs = Ok (v, rest) \<Longrightarrow> (\<And>k. s \<le> k \<Longrightarrow> \<not> bit acc k) \<Longrightarrow>
   s + 7 * (length bs - length rest) \<le> k \<Longrightarrow> \<not> bit v k"
proof (induction bs arbitrary: acc s)
  case Nil
  then show ?case by simp
next
  case (Cons b bs)
  let ?acc = "acc OR push_bit s (ucast (b AND 0x7F))"
  have acc: "\<not> bit ?acc j" if "s + 7 \<le> j" for j
  proof -
    have "\<not> bit acc j" using that by (intro Cons.prems(2)) simp
    moreover have "7 \<le> j - s" using that by linarith
    then have "\<not> bit (0x7F :: u8) (j - s)" by simp
    ultimately show ?thesis
      by (simp only: bit_or_iff bit_push_bit_iff bit_ucast_iff bit_and_iff) blast
  qed
  from read_loop_Cons_Ok [OF Cons.prems(1)]
  consider "v = ?acc" "rest = bs" | "read_loop ?acc (s + 7) bs = Ok (v, rest)" by blast
  then show ?case
  proof cases
    case 1
    have "s + 7 \<le> k" using Cons.prems(3) 1(2) by simp
    from acc [OF this] 1(1) show ?thesis by simp
  next
    case 2
    with read_loop_shortens [OF 2] Cons.prems(3)
    have "s + 7 + 7 * (length bs - length rest) \<le> k" by simp
    then show ?thesis by (rule Cons.IH [OF 2, rotated]) (rule acc)
  qed
qed

lemma unat_below_bits: "(\<And>k. m \<le> k \<Longrightarrow> \<not> bit (v :: u64) k) \<Longrightarrow> unat v < 2 ^ m"
proof -
  assume "\<And>k. m \<le> k \<Longrightarrow> \<not> bit v k"
  then have "take_bit m v = v" by (intro bit_word_eqI) (simp add: bit_take_bit_iff, meson not_le)
  then have "take_bit m (unat v) = unat v" by (metis unsigned_take_bit_eq)
  then show ?thesis by (simp add: take_bit_nat_eq_self_iff)
qed

lemma write_varint_shortest:
  assumes "read_varint bs = Ok (n, rest)"
  shows "length (write_varint [] n) + length rest \<le> length bs"
proof -
  from assms obtain v where v: "read_loop 0 0 bs = Ok (v, rest)" "n = unzigzag v"
    by (auto simp: read_varint_def)
  let ?k = "length bs - length rest"
  have lt: "length rest < length bs" by (rule read_loop_shortens [OF v(1)])
  have "unat v < 2 ^ (7 * ?k)"
    by (rule unat_below_bits) (use read_loop_bits [OF v(1)] in auto)
  then have "length (write_loop [] v) \<le> ?k"
    using lt by (intro write_loop_length_le) simp_all
  with lt v(2) show ?thesis by (simp add: write_varint_def)
qed

text \<open>Ten continuation bytes are a value of their own: the tenth ends the loop.\<close>

lemma read_loop_ten:
  assumes "\<forall>b \<in> set cs. bit b 7" "s < 64" "64 \<le> s + 7 * length cs" "s + 7 * length cs \<le> 70"
  shows "\<exists>v. read_loop acc s (cs @ rest) = Ok (v, rest)"
  using assms
proof (induction cs arbitrary: acc s)
  case Nil
  then show ?case by simp
next
  case (Cons c cs)
  then have c: "c AND 0x80 \<noteq> 0" by (simp add: continues_iff)
  show ?case
  proof (cases "64 \<le> s + 7")
    case True
    with Cons.prems have "cs = []" by (cases cs) auto
    with True show ?thesis by (simp add: read_loop_last del: read_loop.simps)
  next
    case False
    then have "\<exists>v. read_loop (acc OR push_bit s (ucast (c AND 0x7F))) (s + 7) (cs @ rest) = Ok (v, rest)"
      using Cons.prems by (intro Cons.IH) auto
    with False c show ?thesis by (simp add: read_loop_continue del: read_loop.simps)
  qed
qed

section \<open>Properties\<close>

text \<open>
  C1: Writing a value leaves what the buffer held in place, and reading the bytes it added, whatever
  follows them, returns that value and leaves the reader at what follows. For every \<open>i64\<close>.
\<close>

theorem varint_roundtrip:
  "take (length buf) (write_varint buf n) = buf
   \<and> read_varint (drop (length buf) (write_varint buf n) @ rest) = Ok (n, rest)"
  by (subst (1 2) write_varint_append) (simp add: read_varint_write_varint)

text \<open>
  The bit operations of the codec are zig-zag: they map the signed values one to one onto the
  unsigned ones, \<open>k\<close> to \<open>2 k\<close> and \<open>- k - 1\<close> to \<open>2 k + 1\<close>, and the reader's operations undo the writer's.
\<close>

lemma zigzag_bijection:
  "uint (zigzag n) = (if 0 \<le> sint n then 2 * sint n else - 2 * sint n - 1)
   \<and> unzigzag (zigzag n) = n \<and> zigzag (unzigzag v) = v"
  by (simp add: uint_zigzag)

text \<open>
  C32: The writer's bytes are between one and ten and the shortest that the reader takes for the value:
  a read consumes at most ten bytes, and never fewer than the writer needs for what it returned.
\<close>

theorem varint_shortest:
  assumes "read_varint bs = Ok (n, rest)"
  shows "1 \<le> length (write_varint [] n)
    \<and> length rest + length (write_varint [] n) \<le> length bs
    \<and> length bs \<le> length rest + 10"
  using write_varint_length [of n] write_varint_shortest [OF assms] read_varint_consumes [OF assms]
  by auto

theorem varint_shortest_witness:
  "1 \<le> length (write_varint [] 1) \<and> length [7 :: u8] + length (write_varint [] 1) \<le> length [0x82, 0, 7 :: u8]
   \<and> length [0x82, 0, 7 :: u8] \<le> length [7 :: u8] + 10"
  by (rule varint_shortest) code_simp

text \<open>
  C33: The reader panics in one case only, the index out of bounds of a slice that ends before the
  value does: fewer than ten bytes, each with its continuation bit. So every ten bytes hold a value.
\<close>

theorem read_varint_panics:
  "read_varint bs = Panic p \<longleftrightarrow>
     p = Index_out_of_bounds \<and> length bs < 10 \<and> list_all (\<lambda>b. bit b 7) bs"
  by (simp add: read_varint_panic_iff list_all_iff)

end
