(* ===== verification/Array_Codec.thy ===== *)
theory Array_Codec
  imports Prelude
begin

text \<open>
  The array format that the streaming programs exchange: blocks of a count and that many
  values, closed by a count of zero, every number a varint. The theory holds the parts that
  the four generators and the two processors share (appending a record to a buffer, the inner
  summing loop) and, as locales, the contract a varint codec gives to them and the contract a
  block loop has. What a processor computes on a well-formed, truncated or overlong payload is
  proved once, in the locales, and interpreted for both crates.
\<close>

section \<open>Code shared by the crates\<close>

text \<open>
  The body of the generator loops: \<open>write_varint(&mut buf, count)\<close>, one \<open>write_varint\<close> per
  drawn value, and the terminator. The drawn values are an argument, \<open>count\<close> is their number.
\<close>

fun write_values :: "(u8 list \<Rightarrow> i64 \<Rightarrow> u8 list) \<Rightarrow> u8 list \<Rightarrow> i64 list \<Rightarrow> u8 list" where
  "write_values wr buf [] = buf"
| "write_values wr buf (x # xs) = write_values wr (wr buf x) xs"

definition write_record :: "(u8 list \<Rightarrow> i64 \<Rightarrow> u8 list) \<Rightarrow> i64 list \<Rightarrow> u8 list" where
  "write_record wr xs = wr (write_values wr (wr [] (of_nat (length xs))) xs) 0"

text \<open>
  What the generators draw: \<open>gen_range(2..6)\<close> values, each from \<open>gen_range(0..100)\<close>.
\<close>

definition drawn :: "i64 list \<Rightarrow> bool" where
  "drawn xs \<longleftrightarrow> 2 \<le> length xs \<and> length xs < 6 \<and> list_all (\<lambda>x. 0 \<le> sint x \<and> sint x < 100) xs"

text \<open>The inner loop of the processors: \<open>for _ in 0..count { sum += read_varint(&mut payload); }\<close>.\<close>

fun sum_values ::
  "(u8 list \<Rightarrow> (i64 \<times> u8 list) res) \<Rightarrow> profile \<Rightarrow> nat \<Rightarrow> i64 \<Rightarrow> u8 list \<Rightarrow> (i64 \<times> u8 list) res"
where
  "sum_values rd pf 0 tot payload = Ok (tot, payload)"
| "sum_values rd pf (Suc k) tot payload =
     and_then (rd payload) (\<lambda>(v, payload).
       and_then (add_i64 pf tot v) (\<lambda>tot. sum_values rd pf k tot payload))"

lemma sum_values_shortens:
  assumes "\<And>bs n rest. rd bs = Ok (n, rest) \<Longrightarrow> length rest < length bs"
  shows "sum_values rd pf k s bs = Ok (t, rest) \<Longrightarrow> length rest \<le> length bs"
proof (induction k arbitrary: s bs)
  case 0
  then show ?case by simp
next
  case (Suc k)
  then obtain v bs' s' where "rd bs = Ok (v, bs')" "sum_values rd pf k s' bs' = Ok (t, rest)"
    by auto
  with Suc.IH assms show ?case by fastforce
qed

section \<open>What a run of additions yields\<close>

fun add_all :: "profile \<Rightarrow> i64 \<Rightarrow> i64 list \<Rightarrow> i64 res" where
  "add_all pf s [] = Ok s"
| "add_all pf s (x # xs) = and_then (add_i64 pf s x) (\<lambda>s. add_all pf s xs)"

lemma add_all_Release [simp]: "add_all Release s xs = Ok (s + sum_list xs)"
  by (induction xs arbitrary: s) (simp_all add: add.assoc)

lemma add_all_append: "add_all pf s (xs @ ys) = and_then (add_all pf s xs) (\<lambda>s. add_all pf s ys)"
  by (induction xs arbitrary: s) (auto simp: and_then_def split: sum.splits)

lemma add_all_Ok: "add_all pf s xs = Ok t \<Longrightarrow> t = s + sum_list xs"
proof (induction xs arbitrary: s)
  case Nil
  then show ?case by simp
next
  case (Cons x xs)
  then obtain u where "add_i64 pf s x = Ok u" "add_all pf u xs = Ok t" by auto
  then have "u = s + x" and "t = u + sum_list xs"
    by (blast dest: add_i64_eq_Ok Cons.IH)+
  then show ?case by (simp add: add.assoc)
qed

text \<open>Without overflow of any partial sum, both profiles give the exact integer sum.\<close>

lemma add_all_exact:
  assumes "\<And>k. k \<le> length xs \<Longrightarrow> in_i64 (sint s + (\<Sum>x \<leftarrow> take k xs. sint x))"
  shows "add_all pf s xs = Ok (s + sum_list xs)
    \<and> sint (s + sum_list xs) = sint s + (\<Sum>x \<leftarrow> xs. sint x)"
  using assms
proof (induction xs arbitrary: s)
  case Nil
  then show ?case by simp
next
  case (Cons x xs)
  have step: "in_i64 (sint s + sint x)" using Cons.prems [of 1] by simp
  note sum = sint_add_in_range [OF step]
  have "in_i64 (sint (s + x) + (\<Sum>y \<leftarrow> take k xs. sint y))" if "k \<le> length xs" for k
    using Cons.prems [of "Suc k"] that by (simp add: sum add.assoc)
  from Cons.IH [OF this] show ?case
    by (simp add: add_i64_in_range [OF step] sum add.assoc)
qed

definition sum_of_drawn :: "i64 list \<Rightarrow> int" where
  "sum_of_drawn xs = (\<Sum>x \<leftarrow> xs. sint x)"

lemma drawn_partial_sums:
  assumes "list_all (\<lambda>x. 0 \<le> sint x \<and> sint x < 100) xs"
  shows "0 \<le> (\<Sum>x \<leftarrow> take k xs. sint x) \<and> (\<Sum>x \<leftarrow> take k xs. sint x) \<le> 99 * int (length xs)"
  using assms
proof (induction xs arbitrary: k)
  case Nil
  then show ?case by simp
next
  case (Cons x xs)
  then have x: "0 \<le> sint x" "sint x \<le> 99" by simp_all
  show ?case
  proof (cases k)
    case 0
    then show ?thesis by simp
  next
    case (Suc j)
    with x Cons.IH [of j] Cons.prems show ?thesis by simp
  qed
qed

lemma add_all_drawn:
  assumes "drawn xs"
  shows "add_all pf 0 xs = Ok (sum_list xs)"
    and "sint (sum_list xs) = sum_of_drawn xs"
    and "0 \<le> sum_of_drawn xs \<and> sum_of_drawn xs \<le> 495"
proof -
  from assms have xs: "list_all (\<lambda>x. 0 \<le> sint x \<and> sint x < 100) xs" "length xs < 6"
    by (simp_all add: drawn_def)
  have b: "0 \<le> (\<Sum>x \<leftarrow> take k xs. sint x) \<and> (\<Sum>x \<leftarrow> take k xs. sint x) \<le> 495" for k
    using drawn_partial_sums [OF xs(1), of k] xs(2) by linarith
  have "in_i64 (sint (0 :: i64) + (\<Sum>x \<leftarrow> take k xs. sint x))" for k
  proof -
    from b [of k] have "in_i64 (\<Sum>x \<leftarrow> take k xs. sint x)" by (simp add: in_i64_def)
    then show ?thesis by simp
  qed
  then have "add_all pf 0 xs = Ok (0 + sum_list xs)
      \<and> sint (0 + sum_list xs) = sint (0 :: i64) + (\<Sum>x \<leftarrow> xs. sint x)"
    by (rule add_all_exact)
  then show "add_all pf 0 xs = Ok (sum_list xs)" "sint (sum_list xs) = sum_of_drawn xs"
    by (simp_all add: sum_of_drawn_def)
  show "0 \<le> sum_of_drawn xs \<and> sum_of_drawn xs \<le> 495"
    using b [of "length xs"] by (simp add: sum_of_drawn_def)
qed

section \<open>The contract of a varint codec\<close>

locale varint_codec =
  fixes rd :: "u8 list \<Rightarrow> (i64 \<times> u8 list) res"
    and wr :: "u8 list \<Rightarrow> i64 \<Rightarrow> u8 list"
    and dom_ok :: "i64 \<Rightarrow> bool"
  assumes write_append: "wr buf n = buf @ wr [] n"
    and read_write: "dom_ok n \<Longrightarrow> rd (wr [] n @ rest) = Ok (n, rest)"
    and read_shortens: "rd bs = Ok (n, rest) \<Longrightarrow> length rest < length bs"
    and read_truncated: "dom_ok n \<Longrightarrow> k < length (wr [] n) \<Longrightarrow>
      rd (take k (wr [] n)) = Panic Index_out_of_bounds"
begin

lemma write_values_append: "write_values wr buf xs = buf @ concat (map (wr []) xs)"
proof (induction xs arbitrary: buf)
  case Nil
  then show ?case by simp
next
  case (Cons x xs)
  have "write_values wr buf (x # xs) = wr buf x @ concat (map (wr []) xs)"
    by (simp add: Cons.IH)
  also have "wr buf x = buf @ wr [] x" by (rule write_append)
  finally show ?case by simp
qed

lemma write_record_eq:
  "write_record wr xs
   = wr [] (of_nat (length xs)) @ concat (map (wr []) xs) @ wr [] 0"
proof -
  have "write_record wr xs = write_values wr (wr [] (of_nat (length xs))) xs @ wr [] 0"
    unfolding write_record_def by (rule write_append)
  then show ?thesis by (simp add: write_values_append)
qed

lemma write_nonempty: "dom_ok n \<Longrightarrow> wr [] n \<noteq> []"
  using read_write [of n "[]"] read_shortens [of "wr [] n" n "[]"] by auto

lemma sum_values_written:
  "list_all dom_ok xs \<Longrightarrow>
   sum_values rd pf (length xs) s (concat (map (wr []) xs) @ rest)
   = and_then (add_all pf s xs) (\<lambda>t. Ok (t, rest))"
proof (induction xs arbitrary: s)
  case Nil
  then show ?case by simp
next
  case (Cons x xs)
  then show ?case by (auto simp: read_write and_then_def split: sum.splits)
qed

lemma sum_values_truncated:
  "list_all dom_ok xs \<Longrightarrow> k < length (concat (map (wr []) xs)) \<Longrightarrow> is_ok (add_all pf s xs) \<Longrightarrow>
   sum_values rd pf (length xs) s (take k (concat (map (wr []) xs)))
   = Panic Index_out_of_bounds"
proof (induction xs arbitrary: s k)
  case Nil
  then show ?case by simp
next
  case (Cons x xs)
  let ?w = "wr [] x" and ?rest = "concat (map (wr []) xs)"
  show ?case
  proof (cases "k < length ?w")
    case True
    with Cons.prems(1) show ?thesis by (simp add: read_truncated)
  next
    case False
    obtain t where t: "add_i64 pf s x = Ok t" "is_ok (add_all pf t xs)"
      using Cons.prems(3) by (cases "add_i64 pf s x") auto
    have "sum_values rd pf (length xs) t (take (k - length ?w) ?rest) = Panic Index_out_of_bounds"
      using Cons.prems(1,2) False t(2) by (intro Cons.IH) auto
    with False Cons.prems(1) t(1) show ?thesis by (simp add: read_write)
  qed
qed

lemma sum_values_le: "sum_values rd pf k s bs = Ok (t, rest) \<Longrightarrow> length rest \<le> length bs"
  by (rule sum_values_shortens [of rd]) (rule read_shortens)

end

section \<open>The contract of a block loop\<close>

text \<open>
  Both processors stop on a zero count and, on a positive one, run the inner loop, read the
  next count and go on. What they do on a negative count is theirs (the krafka processor has no
  code for it) and not part of the contract.
\<close>

fun write_blocks :: "(u8 list \<Rightarrow> i64 \<Rightarrow> u8 list) \<Rightarrow> i64 list list \<Rightarrow> u8 list" where
  "write_blocks wr [] = wr [] 0"
| "write_blocks wr (xs # xss) =
     wr [] (of_nat (length xs)) @ concat (map (wr []) xs) @ write_blocks wr xss"

definition block_ok :: "(i64 \<Rightarrow> bool) \<Rightarrow> i64 list \<Rightarrow> bool" where
  "block_ok P xs \<longleftrightarrow> xs \<noteq> [] \<and> length xs < 2 ^ 62 \<and> list_all P xs"

lemma sint_of_nat_i64: "n < 2 ^ 63 \<Longrightarrow> sint (of_nat n :: i64) = int n"
  by (simp add: signed_of_nat signed_take_bit_int_eq_self)

lemma block_count:
  assumes "block_ok P xs"
  shows "0 < sint (of_nat (length xs) :: i64)" "nat (sint (of_nat (length xs) :: i64)) = length xs"
    "- (2 ^ 62) \<le> sint (of_nat (length xs) :: i64)" "sint (of_nat (length xs) :: i64) < 2 ^ 62"
  using assms sint_of_nat_i64 [of "length xs"] by (auto simp: block_ok_def)

locale array_decoder = varint_codec rd wr dom_ok
  for rd :: "u8 list \<Rightarrow> (i64 \<times> u8 list) res"
    and wr :: "u8 list \<Rightarrow> i64 \<Rightarrow> u8 list"
    and dom_ok :: "i64 \<Rightarrow> bool" +
  fixes pf :: profile
    and loop :: "i64 \<Rightarrow> i64 \<Rightarrow> u8 list \<Rightarrow> i64 res"
  assumes dom_small: "- (2 ^ 62) \<le> sint n \<Longrightarrow> sint n < 2 ^ 62 \<Longrightarrow> dom_ok n"
    and loop_zero: "loop 0 s bs = Ok s"
    and loop_pos: "0 < sint c \<Longrightarrow> loop c s bs =
      and_then (sum_values rd pf (nat (sint c)) s bs) (\<lambda>(s, bs).
        and_then (rd bs) (\<lambda>(c, bs). loop c s bs))"
begin

lemma dom_zero: "dom_ok 0"
  by (rule dom_small) simp_all

lemma dom_count: "block_ok dom_ok xs \<Longrightarrow> dom_ok (of_nat (length xs))"
  by (rule dom_small [OF block_count(3) block_count(4)])

lemma loop_blocks:
  "list_all (block_ok dom_ok) xss \<Longrightarrow>
   and_then (rd (write_blocks wr xss @ rest)) (\<lambda>(c, bs). loop c s bs) = add_all pf s (concat xss)"
proof (induction xss arbitrary: s)
  case Nil
  then show ?case by (simp add: read_write dom_zero loop_zero)
next
  case (Cons xs xss)
  then have ok: "block_ok dom_ok xs" and xs: "list_all dom_ok xs" by (simp_all add: block_ok_def)
  have "and_then (rd (write_blocks wr (xs # xss) @ rest)) (\<lambda>(c, bs). loop c s bs)
      = and_then (and_then (add_all pf s xs) (\<lambda>t. Ok (t, write_blocks wr xss @ rest)))
          (\<lambda>(s, bs). and_then (rd bs) (\<lambda>(c, bs). loop c s bs))"
    by (simp add: read_write dom_count [OF ok] loop_pos [OF block_count(1) [OF ok]]
        block_count(2) [OF ok] sum_values_written [OF xs])
  also have "\<dots> = add_all pf s (concat (xs # xss))"
    using Cons by (cases "add_all pf s xs") (simp_all add: add_all_append)
  finally show ?case .
qed

lemma write_record_blocks: "write_record wr xs = write_blocks wr [xs]"
  by (simp add: write_record_eq)

lemma loop_truncated:
  assumes ok: "block_ok dom_ok xs" and sums: "is_ok (add_all pf s xs)"
    and k: "k < length (write_record wr xs)"
  shows "and_then (rd (take k (write_record wr xs))) (\<lambda>(c, bs). loop c s bs)
    = Panic Index_out_of_bounds"
proof -
  let ?c = "of_nat (length xs) :: i64" and ?vs = "concat (map (wr []) xs)"
  let ?w = "wr [] ?c"
  have xs: "list_all dom_ok xs" using ok by (simp add: block_ok_def)
  note dc = dom_count [OF ok] and lp = loop_pos [OF block_count(1) [OF ok]] block_count(2) [OF ok]
  consider "k < length ?w" | "length ?w \<le> k" "k - length ?w < length ?vs"
    | "length ?w \<le> k" "length ?vs \<le> k - length ?w"
    by linarith
  then show ?thesis
  proof cases
    case 1
    then show ?thesis by (simp add: write_record_eq read_truncated [OF dc])
  next
    case 2
    then show ?thesis
      by (simp add: write_record_eq read_write [OF dc] lp sum_values_truncated [OF xs _ sums])
  next
    case 3
    obtain t where t: "add_all pf s xs = Ok t" using sums by (cases "add_all pf s xs") auto
    have "k - length ?w - length ?vs < length (wr [] 0)"
      using k 3 by (simp add: write_record_eq)
    with 3 t show ?thesis
      by (simp add: write_record_eq read_write [OF dc] lp sum_values_written [OF xs]
          read_truncated [OF dom_zero])
  qed
qed

end

end
