(* ===== verification/Krafka_Sum.thy ===== *)
theory Krafka_Sum
  imports Krafka_Varint Array_Codec
begin

text \<open>
  What the krafka processor does with the bytes of one record: decode the blocks, add the
  values up, encode the sum (\<open>stream-test-krafka/src/bin/processor.rs\<close>, the body of the
  record loop), and the interpretation of the codec and block-loop contracts on this code.
\<close>

section \<open>The code\<close>

lemma sum_values_read_shortens:
  "sum_values read_varint pf k s bs = Ok (t, rest) \<Longrightarrow> length rest \<le> length bs"
  by (rule sum_values_shortens [of read_varint]) (rule read_varint_shortens)

text \<open>
  \<open>while count != 0 { for _ in 0..count { ... } count = read_varint(&mut payload); }\<close>. The range
  \<open>0..count\<close> of a negative \<open>count\<close> is empty.
\<close>

function sum_blocks :: "profile \<Rightarrow> i64 \<Rightarrow> i64 \<Rightarrow> u8 list \<Rightarrow> i64 res" where
  "sum_blocks pf cnt s payload =
     (if cnt = 0 then Ok s
      else and_then (sum_values read_varint pf (nat (sint cnt)) s payload) (\<lambda>(s, payload).
             and_then (read_varint payload) (\<lambda>(cnt, payload). sum_blocks pf cnt s payload)))"
  by pat_completeness auto
termination
  by (relation "measure (\<lambda>(pf, cnt, s, payload). length payload)")
    (fastforce dest: sum_values_read_shortens read_varint_shortens)+

declare sum_blocks.simps [simp del]

definition sum_payload :: "profile \<Rightarrow> u8 list \<Rightarrow> i64 res" where
  "sum_payload pf payload =
     and_then (read_varint payload) (\<lambda>(cnt, payload). sum_blocks pf cnt 0 payload)"

text \<open>
  A record without a value is skipped; otherwise the sum is written to a fresh buffer, which is
  what goes to the producer task.
\<close>

definition process_record :: "profile \<Rightarrow> u8 list option \<Rightarrow> u8 list option res" where
  "process_record pf value =
     (case value of
        None \<Rightarrow> Ok None
      | Some value_bytes \<Rightarrow>
          and_then (sum_payload pf value_bytes) (\<lambda>s. Ok (Some (write_varint [] s))))"

section \<open>The contracts hold\<close>

interpretation kr_codec: varint_codec read_varint write_varint "\<lambda>_. True"
  by unfold_locales
    (rule write_varint_append, rule read_varint_write_varint, erule read_varint_shortens,
      erule read_varint_truncated)

lemma sum_blocks_zero: "sum_blocks pf 0 s bs = Ok s"
  by (simp add: sum_blocks.simps [of pf 0])

lemma sum_blocks_nonzero:
  "c \<noteq> 0 \<Longrightarrow> sum_blocks pf c s bs =
     and_then (sum_values read_varint pf (nat (sint c)) s bs) (\<lambda>(s, bs).
       and_then (read_varint bs) (\<lambda>(c, bs). sum_blocks pf c s bs))"
  by (subst sum_blocks.simps) simp

interpretation kr: array_decoder read_varint write_varint "\<lambda>_. True" pf "sum_blocks pf"
  for pf
  by unfold_locales (auto intro: sum_blocks_zero sum_blocks_nonzero)

section \<open>Sums of records\<close>

lemma sum_payload_blocks:
  "list_all (block_ok (\<lambda>_. True)) xss \<Longrightarrow>
   sum_payload pf (write_blocks write_varint xss @ junk) = add_all pf 0 (concat xss)"
  unfolding sum_payload_def by (rule kr.loop_blocks)

lemma sum_payload_record:
  "block_ok (\<lambda>_. True) xs \<Longrightarrow>
   sum_payload pf (write_record write_varint xs @ junk) = add_all pf 0 xs"
  using sum_payload_blocks [of "[xs]" pf junk] by (simp add: kr.write_record_blocks)

lemma drawn_block_ok: "drawn xs \<Longrightarrow> block_ok P xs \<longleftrightarrow> list_all P xs"
  by (auto simp: drawn_def block_ok_def)

lemma sum_payload_drawn:
  "drawn xs \<Longrightarrow> sum_payload pf (write_record write_varint xs) = Ok (sum_list xs)"
  using sum_payload_record [of xs pf "[]"]
  by (simp add: drawn_block_ok add_all_drawn list_all_iff)

lemma process_record_drawn:
  "drawn xs \<Longrightarrow> process_record pf (Some (write_record write_varint xs))
   = Ok (Some (write_varint [] (sum_list xs)))"
  by (simp add: process_record_def sum_payload_drawn)

lemma sum_payload_truncated:
  "block_ok (\<lambda>_. True) xs \<Longrightarrow> is_ok (add_all pf 0 xs) \<Longrightarrow>
   k < length (write_record write_varint xs) \<Longrightarrow>
   sum_payload pf (take k (write_record write_varint xs)) = Panic Index_out_of_bounds"
  unfolding sum_payload_def by (rule kr.loop_truncated)

lemma sum_blocks_negative:
  "sint c < 0 \<Longrightarrow> sum_blocks pf c s bs
   = and_then (read_varint bs) (\<lambda>(c, bs). sum_blocks pf c s bs)"
  by (subst sum_blocks_nonzero) auto

section \<open>Properties\<close>

text \<open>
  C16: The krafka processor adds up every value of every block of a well-formed payload, in order and
  with the build's overflow behaviour, and whatever follows the closing zero is not looked at; where no
  partial sum leaves the \<open>i64\<close> range the output is the encoding of the exact sum in both builds.
\<close>

theorem krafka_sums_blocks:
  assumes "list_all (block_ok (\<lambda>_. True)) xss"
  shows "sum_payload pf (write_blocks write_varint xss @ junk) = add_all pf 0 (concat xss)
    \<and> (list_all (\<lambda>k. in_i64 (\<Sum>x \<leftarrow> take k (concat xss). sint x)) [0..<Suc (length (concat xss))] \<longrightarrow>
       (\<exists>s. process_record pf (Some (write_blocks write_varint xss @ junk)) = Ok (Some (write_varint [] s))
         \<and> sint s = (\<Sum>x \<leftarrow> concat xss. sint x)))"
proof -
  have "add_all pf 0 (concat xss) = Ok (0 + sum_list (concat xss))
      \<and> sint (0 + sum_list (concat xss)) = sint (0 :: i64) + (\<Sum>x \<leftarrow> concat xss. sint x)"
    if "list_all (\<lambda>k. in_i64 (\<Sum>x \<leftarrow> take k (concat xss). sint x)) [0..<Suc (length (concat xss))]"
    using that by (intro add_all_exact) (auto simp: list_all_iff simp del: upt_Suc)
  with sum_payload_blocks [OF assms] show ?thesis
    by (auto simp: process_record_def simp del: upt_Suc)
qed

theorem krafka_sums_blocks_witness:
  "sum_payload Debug (write_blocks write_varint [[1, 200], [- 5]] @ [9]) = add_all Debug 0 [1, 200, - 5]
   \<and> (\<exists>s. process_record Debug (Some (write_blocks write_varint [[1, 200], [- 5]] @ [9]))
        = Ok (Some (write_varint [] s)) \<and> sint s = 196)"
proof -
  have "list_all (block_ok (\<lambda>_. True)) [[1, 200], [- 5 :: i64]]" by (simp add: block_ok_def)
  note this [THEN krafka_sums_blocks, of Debug "[9]"]
  moreover have "list_all (\<lambda>k. in_i64 (\<Sum>x \<leftarrow> take k (concat [[1, 200], [- 5 :: i64]]). sint x))
      [0..<Suc (length (concat [[1, 200], [- 5 :: i64]]))]"
    by code_simp
  moreover have "(\<Sum>x \<leftarrow> concat [[1, 200], [- 5 :: i64]]. sint x) = 196" by code_simp
  ultimately show ?thesis by simp
qed

text \<open>
  C34: Cut anywhere, the payload of one block makes the processor panic on an index out of bounds: it
  never yields a sum of fewer values.
\<close>

theorem krafka_truncated_panics:
  assumes "block_ok (\<lambda>_. True) xs" "is_ok (add_all pf 0 xs)"
    and "k < length (write_record write_varint xs)"
  shows "process_record pf (Some (take k (write_record write_varint xs))) = Panic Index_out_of_bounds"
  by (simp add: process_record_def sum_payload_truncated [OF assms])

theorem krafka_truncated_panics_witness:
  "process_record Debug (Some (take 3 (write_record write_varint [1, 2, 3]))) = Panic Index_out_of_bounds"
  by (rule krafka_truncated_panics) (simp add: block_ok_def, code_simp+)

section \<open>The unit tests\<close>

text \<open>The module \<open>tests\<close> of \<open>processor.rs\<close>: \<open>assert_eq!\<close> of calls that may panic.\<close>

definition roundtrip :: "i64 \<Rightarrow> i64 res" where
  "roundtrip n = and_then (read_varint (write_varint [] n)) (\<lambda>(v, _). Ok v)"

definition test_zero :: bool where
  "test_zero \<longleftrightarrow> roundtrip 0 = Ok 0"

definition test_positive :: bool where
  "test_positive \<longleftrightarrow> roundtrip 1 = Ok 1 \<and> roundtrip 100 = Ok 100 \<and> roundtrip 127 = Ok 127
     \<and> roundtrip 128 = Ok 128 \<and> roundtrip 300 = Ok 300
     \<and> roundtrip 0x7FFFFFFFFFFFFFFF = Ok 0x7FFFFFFFFFFFFFFF"

definition test_negative :: bool where
  "test_negative \<longleftrightarrow> roundtrip (- 1) = Ok (- 1) \<and> roundtrip (- 64) = Ok (- 64)
     \<and> roundtrip (- 1000) = Ok (- 1000) \<and> roundtrip 0x8000000000000000 = Ok 0x8000000000000000"

definition test_multi_value_sequence :: bool where
  "test_multi_value_sequence \<longleftrightarrow>
     (let buf = fold (\<lambda>n buf. write_varint buf n) [3, 10, 20, 30, 0] [] in
      case read_varint buf of
        Inl _ \<Rightarrow> False
      | Inr (cnt, reader) \<Rightarrow>
          cnt = 3 \<and>
          (case sum_values read_varint Debug (nat (sint cnt)) 0 reader of
             Inl _ \<Rightarrow> False
           | Inr (s, reader) \<Rightarrow>
               (case read_varint reader of
                  Inl _ \<Rightarrow> False
                | Inr (terminator, _) \<Rightarrow> s = 60 \<and> terminator = 0)))"

lemma roundtrip_id: "roundtrip n = Ok n"
  using read_varint_write_varint [of n "[]"] by (simp add: roundtrip_def)

text \<open>
  The unit tests of the krafka processor pass.
\<close>

lemma unit_tests_pass:
  "test_zero \<and> test_positive \<and> test_negative \<and> test_multi_value_sequence"
  unfolding test_zero_def test_positive_def test_negative_def roundtrip_id
  by (simp, code_simp)

end
