(* ===== verification/Machine.thy ===== *)
theory Machine
  imports Main
begin

text \<open>
  State machines: the reachable states of a step relation and, as a locale, what a component
  has to show of an invariant (the initial states have it, a step keeps it) to conclude that
  every reachable state has it. The worker systems and the throughput reporter interpret it.
\<close>

inductive reachable :: "('s \<Rightarrow> bool) \<Rightarrow> ('s \<Rightarrow> 's \<Rightarrow> bool) \<Rightarrow> 's \<Rightarrow> bool"
  for init :: "'s \<Rightarrow> bool" and step :: "'s \<Rightarrow> 's \<Rightarrow> bool" where
  reachable_init: "init s \<Longrightarrow> reachable init step s"
| reachable_step: "reachable init step s \<Longrightarrow> step s s' \<Longrightarrow> reachable init step s'"

locale invariant_machine =
  fixes init :: "'s \<Rightarrow> bool"
    and step :: "'s \<Rightarrow> 's \<Rightarrow> bool"
    and inv :: "'s \<Rightarrow> bool"
  assumes inv_init: "init s \<Longrightarrow> inv s"
    and inv_step: "inv s \<Longrightarrow> step s s' \<Longrightarrow> inv s'"
begin

lemma reachable_inv: "reachable init step s \<Longrightarrow> inv s"
  by (induction rule: reachable.induct) (auto intro: inv_init inv_step)

end

text \<open>
  Refinement: an abstraction function takes initial states to initial states of an abstract machine
  and, where the invariant holds, each step to a run of it, which may be empty. Reachable states then
  have reachable abstractions.
\<close>

locale refinement = invariant_machine init step inv
  for init :: "'s \<Rightarrow> bool" and step :: "'s \<Rightarrow> 's \<Rightarrow> bool" and inv :: "'s \<Rightarrow> bool" +
  fixes abs :: "'s \<Rightarrow> 't" and abs_init :: "'t \<Rightarrow> bool" and abs_step :: "'t \<Rightarrow> 't \<Rightarrow> bool"
  assumes refine_init: "init s \<Longrightarrow> abs_init (abs s)"
    and refine_step: "inv s \<Longrightarrow> step s s' \<Longrightarrow> abs_step\<^sup>*\<^sup>* (abs s) (abs s')"
begin

lemma reachable_steps: "abs_step\<^sup>*\<^sup>* t t' \<Longrightarrow> reachable abs_init abs_step t \<Longrightarrow> reachable abs_init abs_step t'"
  by (induction rule: rtranclp_induct) (auto intro: reachable.reachable_step)

lemma abs_reachable: "reachable init step s \<Longrightarrow> reachable abs_init abs_step (abs s)"
proof (induction rule: reachable.induct)
  case (reachable_init s)
  then show ?case by (intro reachable.reachable_init refine_init)
next
  case (reachable_step s s')
  then have "abs_step\<^sup>*\<^sup>* (abs s) (abs s')" using reachable_inv by (intro refine_step) auto
  then show ?case using reachable_step.IH by (rule reachable_steps)
qed

end

text \<open>
  An executable machine is a partial step function of a label. Its relation is the union over
  the labels; \<open>exec\<close> runs a list of labels and fails when one of them is not enabled.
\<close>

fun exec :: "('l \<Rightarrow> 's \<Rightarrow> 's option) \<Rightarrow> 'l list \<Rightarrow> 's \<Rightarrow> 's option" where
  "exec f [] s = Some s"
| "exec f (l # ls) s = (case f l s of None \<Rightarrow> None | Some s' \<Rightarrow> exec f ls s')"

lemma exec_append:
  "exec f (ls @ ls') s = (case exec f ls s of None \<Rightarrow> None | Some s' \<Rightarrow> exec f ls' s')"
  by (induction ls arbitrary: s) (auto split: option.splits)

lemma exec_take: "exec f ls s \<noteq> None \<Longrightarrow> exec f (take k ls) s \<noteq> None"
  using exec_append [of f "take k ls" "drop k ls" s] by (auto split: option.splits)

lemma exec_reachable:
  assumes "\<And>l s s'. f l s = Some s' \<Longrightarrow> step s s'"
  shows "reachable init step s \<Longrightarrow> exec f ls s = Some s' \<Longrightarrow> reachable init step s'"
proof (induction ls arbitrary: s)
  case Nil
  then show ?case by simp
next
  case (Cons l ls)
  then obtain t where "f l s = Some t" "exec f ls t = Some s'"
    by (auto split: option.splits)
  with Cons assms show ?case by (blast intro: reachable_step)
qed

lemma exec_inv:
  assumes "\<And>l s s'. P s \<Longrightarrow> f l s = Some s' \<Longrightarrow> P s'"
  shows "P s \<Longrightarrow> exec f ls s = Some s' \<Longrightarrow> P s'"
  by (induction ls arbitrary: s) (auto split: option.splits intro: assms)

text \<open>A measure that every step decreases bounds the length of every run.\<close>

lemma exec_bounded:
  assumes inv: "\<And>l s s'. P s \<Longrightarrow> f l s = Some s' \<Longrightarrow> P s'"
    and less: "\<And>l s s'. P s \<Longrightarrow> f l s = Some s' \<Longrightarrow> (m s' :: nat) < m s"
  shows "P s \<Longrightarrow> exec f ls s = Some s' \<Longrightarrow> length ls + m s' \<le> m s"
proof (induction ls arbitrary: s)
  case Nil
  then show ?case by simp
next
  case (Cons l ls)
  then obtain t where t: "f l s = Some t" "exec f ls t = Some s'"
    by (auto split: option.splits)
  from Cons.IH [OF inv [OF Cons.prems(1) t(1)] t(2)] less [OF Cons.prems(1) t(1)]
  show ?case by simp
qed

text \<open>With a decreasing measure and progress until a goal, a run reaches the goal.\<close>

lemma exec_terminates:
  assumes inv: "\<And>l s s'. P s \<Longrightarrow> f l s = Some s' \<Longrightarrow> P s'"
    and less: "\<And>l s s'. P s \<Longrightarrow> f l s = Some s' \<Longrightarrow> (m s' :: nat) < m s"
    and progress: "\<And>s. P s \<Longrightarrow> \<not> goal s \<Longrightarrow> \<exists>l s'. f l s = Some s'"
  shows "P s \<Longrightarrow> \<exists>ls s'. exec f ls s = Some s' \<and> P s' \<and> goal s' \<and> length ls \<le> m s"
proof (induction "m s" arbitrary: s rule: less_induct)
  case less
  show ?case
  proof (cases "goal s")
    case True
    with less.prems show ?thesis by (intro exI [of _ "[]"]) simp
  next
    case False
    with progress less.prems obtain l t where t: "f l s = Some t" by blast
    have "P t" "m t < m s" using inv assms(2) less.prems t by blast+
    with less.hyps obtain ls s' where "exec f ls t = Some s'" "P s'" "goal s'" "length ls \<le> m t"
      by blast
    with t \<open>m t < m s\<close> show ?thesis by (intro exI [of _ "l # ls"]) auto
  qed
qed

end
