(* ===== verification/Krafka_Worker.thy ===== *)
theory Krafka_Worker
  imports Krafka_Sum Machine
begin

text \<open>
  One worker of the krafka processor (\<open>stream-test-krafka/src/bin/processor.rs\<close>): the consume
  loop that runs on the worker's thread, the produce task it spawns, the bounded channel between
  them and the two process-wide atomics they touch.

  A worker is a record; each atomic action of either side is a step function that returns \<open>None\<close>
  where the action is not enabled (a full channel, a pending receive, a task that has ended). The
  outcomes that come from outside (what \<open>poll\<close> returns, which send completes, the clock) are the
  arguments of the steps. The fields \<open>assigned\<close>, \<open>seeks\<close>, \<open>polled\<close>, \<open>sent\<close>, \<open>settled\<close> and \<open>rejected\<close>
  record the worker's dealings with the broker: the partitions its consumer was assigned, the offsets it was
  set to, the values of the records it was given, the buffers handed to \<open>send_record\<close>, those whose send
  has completed, with or without an error, and those of them whose send completed with one, each in order.
  The code looks at no result of a send, so \<open>rejected\<close> is read by no step.
\<close>

section \<open>State\<close>

definition total_records :: u64 where
  "total_records = 50000000"

definition worker_window :: nat where
  "worker_window = 10000"

text \<open>The statics \<open>PROCESSED_COUNTER\<close> and \<open>START_NANOS\<close>.\<close>

record globals =
  processed :: u64
  start_nanos :: u64

definition globals_init :: globals where
  "globals_init = \<lparr>processed = 0, start_nanos = 0\<rparr>"

text \<open>
  Where the consume loop stands: before the counter check, in \<open>poll\<close>, at the \<open>START_NANOS\<close> load or
  compare-exchange, at the head of the record loop, in \<open>tx.send(buf).await\<close>, or past the loop with
  \<open>tx\<close> dropped and awaiting the produce task. \<open>Finished\<close> and \<open>Crashed\<close> are the ends of the thread.
\<close>

type_synonym rvalue = "u8 list option"

datatype phase =
    At_check
  | In_poll
  | At_start_load "rvalue list"
  | At_start_cas "rvalue list"
  | At_record "rvalue list"
  | In_send "u8 list" "rvalue list"
  | Draining
  | Finished
  | Crashed panic

datatype task = Task_running | Task_done | Task_aborted

record worker =
  phase :: phase
  consecutive_empty :: u32
  chan :: "u8 list list"
  in_flight :: "u8 list list"
  local_counter :: u64
  channel_open :: bool
  task :: task
  assigned :: "i32 list"
  seeks :: "(i32 \<times> i64) list"
  polled :: "rvalue list"
  sent :: "u8 list list"
  settled :: "u8 list list"
  rejected :: "u8 list list"

definition worker_init :: worker where
  "worker_init = \<lparr>phase = At_check, consecutive_empty = 0, chan = [], in_flight = [],
     local_counter = 0, channel_open = True, task = Task_running,
     assigned = [], seeks = [], polled = [], sent = [], settled = [], rejected = []\<rparr>"

text \<open>The sender \<open>tx\<close> lives until the consume loop is left, by \<open>break\<close> or by unwinding.\<close>

fun tx_alive :: "phase \<Rightarrow> bool" where
  "tx_alive Draining = False"
| "tx_alive Finished = False"
| "tx_alive (Crashed _) = False"
| "tx_alive _ = True"

section \<open>Start of a worker\<close>

text \<open>
  The calls before the loop, in their order, each followed by \<open>expect\<close>; their outcomes are
  parameters. The consumer is assigned the partition \<open>worker_id as i32\<close> and set to its offset 0.
\<close>

record worker_setup =
  runtime_ok :: bool
  producer_ok :: bool
  consumer_ok :: bool
  assign_ok :: "i32 \<Rightarrow> bool"
  seek_ok :: "i32 \<Rightarrow> bool"

definition worker_partition :: "u64 \<Rightarrow> i32" where
  "worker_partition worker_id = ucast worker_id"

definition start_worker :: "worker_setup \<Rightarrow> u64 \<Rightarrow> worker res" where
  "start_worker su worker_id =
     and_then (expect ''Failed to create worker runtime'' (runtime_ok su)) (\<lambda>_.
     and_then (expect ''Failed to create worker producer'' (producer_ok su)) (\<lambda>_.
     and_then (expect ''Failed to create worker consumer'' (consumer_ok su)) (\<lambda>_.
     let partition = worker_partition worker_id in
     and_then (expect ''Failed to assign partition'' (assign_ok su partition)) (\<lambda>_.
     and_then (expect ''Failed to seek to offset 0'' (seek_ok su partition)) (\<lambda>_.
       Ok (worker_init\<lparr>assigned := [partition], seeks := [(partition, 0)]\<rparr>))))))"

section \<open>The consume loop\<close>

datatype consume_event =
    Check_counter
  | Poll_err
  | Poll_ok "rvalue list"
  | Load_start
  | Cas_start "u64 option"
  | Next_record
  | Send
  | Join

text \<open>\<open>if PROCESSED_COUNTER.load(..) >= TOTAL_RECORDS { break; }\<close>\<close>

definition check_counter :: "globals \<Rightarrow> worker \<Rightarrow> worker" where
  "check_counter g w = w\<lparr>phase := (if total_records \<le> processed g then Draining else In_poll)\<rparr>"

text \<open>
  An empty poll counts and, at the third in a row, ends the loop; a non-empty one resets the count.
\<close>

definition poll_ok :: "rvalue list \<Rightarrow> worker \<Rightarrow> worker" where
  "poll_ok records w =
     (if records = []
      then let n = consecutive_empty w + 1
           in w\<lparr>consecutive_empty := n, phase := (if 3 \<le> n then Draining else At_check)\<rparr>
      else w\<lparr>consecutive_empty := 0, phase := At_start_load records, polled := polled w @ records\<rparr>)"

text \<open>
  \<open>START_NANOS\<close>: a relaxed load, then, if it was 0, the clock (which panics before the epoch) and a
  compare-exchange from 0, whose result is dropped.
\<close>

definition load_start :: "globals \<Rightarrow> rvalue list \<Rightarrow> worker \<Rightarrow> worker" where
  "load_start g records w =
     w\<lparr>phase := (if start_nanos g = 0 then At_start_cas records else At_record records)\<rparr>"

definition cas_start :: "u64 option \<Rightarrow> rvalue list \<Rightarrow> globals \<times> worker \<Rightarrow> globals \<times> worker" where
  "cas_start now records gw = (case gw of (g, w) \<Rightarrow>
     (case now of
        None \<Rightarrow> (g, w\<lparr>phase := Crashed (Expect_failed ''SystemTimeError'')\<rparr>)
      | Some t \<Rightarrow>
          (if start_nanos g = 0 then g\<lparr>start_nanos := t\<rparr> else g,
           w\<lparr>phase := At_record records\<rparr>)))"

text \<open>One iteration of \<open>for record in &records\<close>, up to the send.\<close>

definition next_record :: "profile \<Rightarrow> rvalue list \<Rightarrow> worker \<Rightarrow> worker" where
  "next_record pf records w =
     (case records of
        [] \<Rightarrow> w\<lparr>phase := At_check\<rparr>
      | value # records \<Rightarrow>
          (case process_record pf value of
             Inl p \<Rightarrow> w\<lparr>phase := Crashed p\<rparr>
           | Inr None \<Rightarrow> w\<lparr>phase := At_record records\<rparr>
           | Inr (Some buf) \<Rightarrow> w\<lparr>phase := In_send buf records\<rparr>))"

text \<open>
  \<open>tx.send(buf).await\<close>: an error when the receiver is gone, waits while the channel is full.
\<close>

definition send_buf :: "u8 list \<Rightarrow> rvalue list \<Rightarrow> worker \<Rightarrow> worker option" where
  "send_buf buf records w =
     (if task w \<noteq> Task_running then Some (w\<lparr>phase := Draining\<rparr>)
      else if length (chan w) < worker_window
      then Some (w\<lparr>chan := chan w @ [buf], phase := At_record records\<rparr>)
      else None)"

fun consume_step ::
  "profile \<Rightarrow> consume_event \<Rightarrow> globals \<times> worker \<Rightarrow> (globals \<times> worker) option"
where
  "consume_step pf ev (g, w) =
     (case (phase w, ev) of
        (At_check, Check_counter) \<Rightarrow> Some (g, check_counter g w)
      | (In_poll, Poll_err) \<Rightarrow> Some (g, w\<lparr>phase := At_check\<rparr>)
      | (In_poll, Poll_ok records) \<Rightarrow> Some (g, poll_ok records w)
      | (At_start_load records, Load_start) \<Rightarrow> Some (g, load_start g records w)
      | (At_start_cas records, Cas_start now) \<Rightarrow> Some (cas_start now records (g, w))
      | (At_record records, Next_record) \<Rightarrow> Some (g, next_record pf records w)
      | (In_send buf records, Send) \<Rightarrow> map_option (Pair g) (send_buf buf records w)
      | (Draining, Join) \<Rightarrow>
          (if task w = Task_running then None else Some (g, w\<lparr>phase := Finished\<rparr>))
      | _ \<Rightarrow> None)"

section \<open>The produce task\<close>

datatype produce_event = Recv | Complete nat bool | Task_exit | Abort

text \<open>The guards of the two branches of \<open>tokio::select!\<close>, and of the loop around it.\<close>

definition recv_enabled :: "worker \<Rightarrow> bool" where
  "recv_enabled w \<longleftrightarrow> channel_open w \<and> length (in_flight w) < worker_window"

definition next_enabled :: "worker \<Rightarrow> bool" where
  "next_enabled w \<longleftrightarrow> in_flight w \<noteq> []"

definition task_loop_guard :: "worker \<Rightarrow> bool" where
  "task_loop_guard w \<longleftrightarrow> channel_open w \<or> in_flight w \<noteq> []"

text \<open>
  \<open>rx.recv()\<close>: the oldest buffer, which is handed to \<open>send_record\<close> and joins the window; \<open>None\<close> when
  the channel is empty and the sender is gone, which closes it for good; otherwise it waits.
\<close>

definition recv_buf :: "worker \<Rightarrow> worker option" where
  "recv_buf w =
     (if \<not> recv_enabled w then None
      else case chan w of
             buf # bufs \<Rightarrow>
               Some (w\<lparr>chan := bufs, in_flight := in_flight w @ [buf], sent := sent w @ [buf]\<rparr>)
           | [] \<Rightarrow> if tx_alive (phase w) then None else Some (w\<lparr>channel_open := False\<rparr>))"

text \<open>
  \<open>Some(_) = in_flight.next()\<close>: any one of the sends in flight completes. The pattern matches \<open>Ok\<close> and
  \<open>Err\<close> alike: a failed send counts as much as one that succeeded. A batch of 1000 completions is added to
  the shared counter.
\<close>

definition complete_send :: "nat \<Rightarrow> bool \<Rightarrow> globals \<times> worker \<Rightarrow> (globals \<times> worker) option" where
  "complete_send i sent_ok gw = (case gw of (g, w) \<Rightarrow>
     (if next_enabled w \<and> i < length (in_flight w)
      then let w = w\<lparr>in_flight := take i (in_flight w) @ drop (Suc i) (in_flight w),
                     settled := settled w @ [in_flight w ! i],
                     rejected := (if sent_ok then rejected w else rejected w @ [in_flight w ! i]),
                     local_counter := local_counter w + 1\<rparr>
           in if 1000 \<le> local_counter w
              then Some (g\<lparr>processed := processed g + local_counter w\<rparr>, w\<lparr>local_counter := 0\<rparr>)
              else Some (g, w)
      else None))"

text \<open>The end of the loop adds what is left in the local counter.\<close>

definition task_exit :: "globals \<times> worker \<Rightarrow> (globals \<times> worker) option" where
  "task_exit gw = (case gw of (g, w) \<Rightarrow>
     (if task_loop_guard w then None
      else Some (if 0 < local_counter w then g\<lparr>processed := processed g + local_counter w\<rparr> else g,
                 w\<lparr>task := Task_done\<rparr>)))"

text \<open>
  When the worker's thread unwinds, its runtime is dropped and the task with it: what is still in
  the channel or in flight is lost.
\<close>

fun produce_step :: "produce_event \<Rightarrow> globals \<times> worker \<Rightarrow> (globals \<times> worker) option" where
  "produce_step ev (g, w) =
     (if task w \<noteq> Task_running then None
      else case ev of
             Recv \<Rightarrow> map_option (Pair g) (recv_buf w)
           | Complete i sent_ok \<Rightarrow> complete_send i sent_ok (g, w)
           | Task_exit \<Rightarrow> task_exit (g, w)
           | Abort \<Rightarrow>
               (case phase w of
                  Crashed _ \<Rightarrow> Some (g, w\<lparr>task := Task_aborted, chan := [], in_flight := []\<rparr>)
                | _ \<Rightarrow> None))"

datatype worker_event = Consume consume_event | Produce produce_event

fun worker_step :: "profile \<Rightarrow> worker_event \<Rightarrow> globals \<times> worker \<Rightarrow> (globals \<times> worker) option" where
  "worker_step pf (Consume ev) gw = consume_step pf ev gw"
| "worker_step pf (Produce ev) gw = produce_step ev gw"

end
