(* ===== verification/Krafka_Worker_Inv.thy ===== *)
theory Krafka_Worker_Inv
  imports Krafka_Worker
begin

text \<open>
  The invariant of a krafka worker and what follows from it for one worker: bounded queues, the
  first-in first-out pipeline from polled records to sent buffers, the accounting of completed
  sends, the absence of a disabled \<open>select!\<close>, progress and the termination of the drain.
\<close>

section \<open>Specification of the pipeline\<close>

text \<open>The buffers that the records of a list give rise to, in order.\<close>

fun outputs :: "profile \<Rightarrow> rvalue list \<Rightarrow> u8 list list" where
  "outputs pf [] = []"
| "outputs pf (v # vs) =
     (case process_record pf v of Inr (Some buf) \<Rightarrow> buf # outputs pf vs | _ \<Rightarrow> outputs pf vs)"

lemma outputs_append: "outputs pf (vs @ vs') = outputs pf vs @ outputs pf vs'"
  by (induction vs) (auto split: sum.splits option.splits)

text \<open>What the loop position still holds: the buffer being sent and the records not yet looked at.\<close>

fun pending_outputs :: "profile \<Rightarrow> phase \<Rightarrow> u8 list list" where
  "pending_outputs pf (At_start_load records) = outputs pf records"
| "pending_outputs pf (At_start_cas records) = outputs pf records"
| "pending_outputs pf (At_record records) = outputs pf records"
| "pending_outputs pf (In_send buf records) = buf # outputs pf records"
| "pending_outputs pf _ = []"

fun is_crashed :: "phase \<Rightarrow> bool" where
  "is_crashed (Crashed _) = True"
| "is_crashed _ = False"

definition pipeline_ok :: "profile \<Rightarrow> worker \<Rightarrow> bool" where
  "pipeline_ok pf w \<longleftrightarrow>
     (if is_crashed (phase w)
      then \<exists>lost. outputs pf (polled w) = sent w @ chan w @ lost
      else outputs pf (polled w) = sent w @ chan w @ pending_outputs pf (phase w))"

definition queues_ok :: "worker \<Rightarrow> bool" where
  "queues_ok w \<longleftrightarrow> length (chan w) \<le> worker_window \<and> length (in_flight w) \<le> worker_window"

definition sends_ok :: "worker \<Rightarrow> bool" where
  "sends_ok w \<longleftrightarrow>
     (if task w = Task_aborted then mset (settled w) \<subseteq># mset (sent w)
      else mset (sent w) = mset (settled w) + mset (in_flight w))
     \<and> mset (rejected w) \<subseteq># mset (settled w)"

definition task_ok :: "worker \<Rightarrow> bool" where
  "task_ok w \<longleftrightarrow>
     (\<not> channel_open w \<longrightarrow> chan w = [] \<and> \<not> tx_alive (phase w))
     \<and> (task w = Task_done \<longrightarrow> \<not> channel_open w \<and> in_flight w = [])
     \<and> (task w = Task_aborted \<longrightarrow> is_crashed (phase w))
     \<and> (phase w = Finished \<longrightarrow> task w = Task_done)"

definition counters_ok :: "worker \<Rightarrow> bool" where
  "counters_ok w \<longleftrightarrow>
     unat (local_counter w) < 1000
     \<and> (tx_alive (phase w) \<longrightarrow> unat (consecutive_empty w) < 3)
     \<and> unat (consecutive_empty w) \<le> 3
     \<and> unat (local_counter w) \<le> length (settled w)
     \<and> 1000 dvd (length (settled w) - unat (local_counter w))"

fun remaining :: "phase \<Rightarrow> rvalue list" where
  "remaining (At_start_load records) = records"
| "remaining (At_start_cas records) = records"
| "remaining (At_record records) = records"
| "remaining (In_send _ records) = records"
| "remaining _ = []"

text \<open>
  A worker crashes in its set-up, before it has polled; on the clock, with a batch in hand; or on a record
  that it was given. The clock is read only for a batch that is not empty.
\<close>

fun batch_ok :: "phase \<Rightarrow> bool" where
  "batch_ok (At_start_load records) \<longleftrightarrow> records \<noteq> []"
| "batch_ok (At_start_cas records) \<longleftrightarrow> records \<noteq> []"
| "batch_ok _ \<longleftrightarrow> True"

definition crash_ok :: "profile \<Rightarrow> worker \<Rightarrow> bool" where
  "crash_ok pf w \<longleftrightarrow>
     set (remaining (phase w)) \<subseteq> set (polled w) \<and> batch_ok (phase w)
     \<and> (\<forall>p. phase w = Crashed p \<longrightarrow>
          polled w = [] \<or> p = Expect_failed ''SystemTimeError''
          \<or> (\<exists>v \<in> set (polled w). process_record pf v = Panic p))"

definition worker_inv :: "profile \<Rightarrow> worker \<Rightarrow> bool" where
  "worker_inv pf w \<longleftrightarrow> pipeline_ok pf w \<and> queues_ok w \<and> sends_ok w \<and> task_ok w \<and> counters_ok w
     \<and> crash_ok pf w"

lemmas worker_inv_defs =
  pipeline_ok_def queues_ok_def sends_ok_def task_ok_def counters_ok_def crash_ok_def

lemma worker_inv_init: "worker_inv pf (worker_init\<lparr>assigned := ps, seeks := offs\<rparr>)"
  by (simp add: worker_inv_def worker_inv_defs worker_init_def)

lemma worker_inv_setup_failed:
  "worker_inv pf (worker_init\<lparr>phase := Crashed (Expect_failed msg), task := Task_aborted\<rparr>)"
  by (simp add: worker_inv_def worker_inv_defs worker_init_def)

section \<open>Every operation keeps it\<close>

lemma check_counter_inv:
  "worker_inv pf w \<Longrightarrow> phase w = At_check \<Longrightarrow> worker_inv pf (check_counter g w)"
  by (auto simp: worker_inv_def worker_inv_defs check_counter_def)

lemma u32_add_one: "unat (n :: u32) < 3 \<Longrightarrow> unat (n + 1) = unat n + 1"
  by (simp add: unat_word_ariths)

lemma poll_err_inv:
  "worker_inv pf w \<Longrightarrow> phase w = In_poll \<Longrightarrow> worker_inv pf (w\<lparr>phase := At_check\<rparr>)"
  by (auto simp: worker_inv_def worker_inv_defs)

lemma poll_ok_inv:
  "worker_inv pf w \<Longrightarrow> phase w = In_poll \<Longrightarrow> worker_inv pf (poll_ok records w)"
  using u32_add_one [of "consecutive_empty w"]
  by (auto simp add: worker_inv_def worker_inv_defs poll_ok_def Let_def outputs_append
      word_le_nat_alt not_le)

lemma load_start_inv:
  "worker_inv pf w \<Longrightarrow> phase w = At_start_load records \<Longrightarrow> worker_inv pf (load_start g records w)"
  by (auto simp: worker_inv_def worker_inv_defs load_start_def)

lemma cas_start_inv:
  "worker_inv pf w \<Longrightarrow> phase w = At_start_cas records \<Longrightarrow>
   cas_start now records (g, w) = (g', w') \<Longrightarrow> worker_inv pf w'"
  by (auto simp: worker_inv_def worker_inv_defs cas_start_def split: option.splits)

lemma next_record_inv:
  "worker_inv pf w \<Longrightarrow> phase w = At_record records \<Longrightarrow> worker_inv pf (next_record pf records w)"
  by (auto simp: worker_inv_def worker_inv_defs next_record_def
      split: list.splits sum.splits option.splits)

lemma send_buf_inv:
  "worker_inv pf w \<Longrightarrow> phase w = In_send buf records \<Longrightarrow> send_buf buf records w = Some w' \<Longrightarrow>
   worker_inv pf w'"
  by (cases "task w") (auto simp: worker_inv_def worker_inv_defs send_buf_def split: if_splits)

lemma recv_buf_inv: "worker_inv pf w \<Longrightarrow> task w = Task_running \<Longrightarrow> recv_buf w = Some w' \<Longrightarrow> worker_inv pf w'"
  by (auto simp: worker_inv_def worker_inv_defs recv_buf_def recv_enabled_def
      split: if_splits list.splits)

lemma mset_take_drop_nth:
  "i < length xs \<Longrightarrow> mset xs = add_mset (xs ! i) (mset (take i xs @ drop (Suc i) xs))"
  by (subst id_take_nth_drop [of i xs]) simp_all

lemma u64_add_one: "unat (n :: u64) < 1000 \<Longrightarrow> unat (n + 1) = unat n + 1"
  by (simp add: unat_word_ariths)

lemma batch_dvd:
  assumes "(l :: nat) < 1000" "l \<le> a" "1000 dvd (a - l)" "1000 \<le> l + 1"
  shows "1000 dvd (a + 1)"
proof -
  have "a + 1 = (a - l) + 1000" using assms(1,2,4) by linarith
  moreover have "1000 dvd (a - l) + 1000" using assms(3) by (rule dvd_add) simp
  ultimately show ?thesis by (simp only:)
qed

lemma rejected_subset: "mset xs \<subseteq># mset ys \<Longrightarrow> mset xs \<subseteq># add_mset y (mset ys)"
  by (auto intro: subset_mset.order_trans)

lemma complete_send_inv:
  assumes inv: "worker_inv pf w" and run: "task w = Task_running"
    and step: "complete_send i sent_ok (g, w) = Some (g', w')"
  shows "worker_inv pf w'"
proof -
  have i: "i < length (in_flight w)"
    using step by (auto simp: complete_send_def split: if_splits)
  have len: "length (take i (in_flight w) @ drop (Suc i) (in_flight w)) \<le> length (in_flight w)"
    by simp
  have loc: "unat (local_counter w + 1) = unat (local_counter w) + 1"
    using inv by (intro u64_add_one) (simp add: worker_inv_def counters_ok_def)
  from step have w': "w' = w\<lparr>in_flight := take i (in_flight w) @ drop (Suc i) (in_flight w),
      settled := settled w @ [in_flight w ! i],
      rejected := (if sent_ok then rejected w else rejected w @ [in_flight w ! i]),
      local_counter := (if 1000 \<le> local_counter w + 1 then 0 else local_counter w + 1)\<rparr>"
    by (auto simp: complete_send_def Let_def split: if_splits)
  have "pipeline_ok pf w'" "task_ok w'" "crash_ok pf w'"
    using inv run by (simp_all add: w' worker_inv_def pipeline_ok_def task_ok_def crash_ok_def)
  moreover have "queues_ok w'"
    using inv len by (simp add: w' worker_inv_def queues_ok_def)
  moreover have "sends_ok w'"
    using inv run mset_take_drop_nth [OF i]
    by (simp add: w' worker_inv_def sends_ok_def rejected_subset)
  moreover have "counters_ok w'"
    using inv loc batch_dvd [of "unat (local_counter w)" "length (settled w)"]
    by (simp add: w' worker_inv_def counters_ok_def word_le_nat_alt)
  ultimately show ?thesis by (simp add: worker_inv_def)
qed

lemma task_exit_inv:
  "worker_inv pf w \<Longrightarrow> task w = Task_running \<Longrightarrow> task_exit (g, w) = Some (g', w') \<Longrightarrow> worker_inv pf w'"
  by (auto simp: worker_inv_def worker_inv_defs task_exit_def task_loop_guard_def split: if_splits)

lemma abort_inv:
  "worker_inv pf w \<Longrightarrow> task w = Task_running \<Longrightarrow> phase w = Crashed p \<Longrightarrow>
   worker_inv pf (w\<lparr>task := Task_aborted, chan := [], in_flight := []\<rparr>)"
  by (auto simp: worker_inv_def worker_inv_defs)

lemma join_inv:
  "worker_inv pf w \<Longrightarrow> phase w = Draining \<Longrightarrow> task w \<noteq> Task_running \<Longrightarrow>
   worker_inv pf (w\<lparr>phase := Finished\<rparr>)"
  by (cases "task w") (auto simp: worker_inv_def worker_inv_defs)

lemma consume_step_inv:
  "worker_inv pf w \<Longrightarrow> consume_step pf ev (g, w) = Some (g', w') \<Longrightarrow> worker_inv pf w'"
  by (cases "phase w"; cases ev)
    (auto intro: check_counter_inv poll_err_inv poll_ok_inv load_start_inv cas_start_inv
      next_record_inv send_buf_inv join_inv split: if_splits)

lemma produce_step_inv:
  "worker_inv pf w \<Longrightarrow> produce_step ev (g, w) = Some (g', w') \<Longrightarrow> worker_inv pf w'"
  by (cases ev)
    (auto intro: recv_buf_inv complete_send_inv task_exit_inv abort_inv
      split: if_splits phase.splits)

lemma worker_step_inv:
  "worker_inv pf w \<Longrightarrow> worker_step pf ev (g, w) = Some (g', w') \<Longrightarrow> worker_inv pf w'"
  by (cases ev) (auto intro: consume_step_inv produce_step_inv simp del: consume_step.simps produce_step.simps)

section \<open>Progress and the drain\<close>

text \<open>
  \<open>tokio::select!\<close> panics when every branch is disabled. The loop guard rules that out, because the
  window is not empty when it is full.
\<close>

lemma worker_window_pos: "0 < worker_window"
  by (simp add: worker_window_def)

lemma select_has_branch: "task_loop_guard w \<Longrightarrow> recv_enabled w \<or> next_enabled w"
  using worker_window_pos by (auto simp: task_loop_guard_def recv_enabled_def next_enabled_def)

text \<open>The produce task is stuck only while the channel is empty and the sender alive.\<close>

lemma produce_progress:
  assumes "worker_inv pf w" "task w = Task_running"
    and "\<not> (in_flight w = [] \<and> chan w = [] \<and> channel_open w \<and> tx_alive (phase w))"
  shows "\<exists>ev g' w'. produce_step ev (g, w) = Some (g', w')"
proof (cases "in_flight w = []")
  case True
  show ?thesis
  proof (cases "channel_open w")
    case opened: True
    with True assms(3) have "recv_buf w \<noteq> None"
      using worker_window_pos
      by (auto simp: recv_buf_def recv_enabled_def split: list.splits)
    then show ?thesis
      using assms(2) by (intro exI [of _ Recv]) auto
  next
    case False
    with True have "task_exit (g, w) \<noteq> None" by (simp add: task_exit_def task_loop_guard_def)
    then obtain g' w' where "task_exit (g, w) = Some (g', w')" by auto
    then have "produce_step Task_exit (g, w) = Some (g', w')" using assms(2) by simp
    then show ?thesis by blast
  qed
next
  case False
  then have "complete_send 0 True (g, w) \<noteq> None"
    by (auto simp: complete_send_def next_enabled_def Let_def)
  then obtain g' w' where "complete_send 0 True (g, w) = Some (g', w')" by auto
  then have "produce_step (Complete 0 True) (g, w) = Some (g', w')" using assms(2) by simp
  then show ?thesis by blast
qed

lemma send_buf_or_produce:
  assumes "worker_inv pf w" "phase w = In_send buf records"
  shows "send_buf buf records w \<noteq> None \<or> (\<exists>ev g' w'. produce_step ev (g, w) = Some (g', w'))"
proof (cases "task w = Task_running \<and> \<not> length (chan w) < worker_window")
  case True
  then have "chan w \<noteq> []" using worker_window_pos by auto
  with produce_progress [OF assms(1)] True show ?thesis by blast
next
  case False
  then show ?thesis by (auto simp: send_buf_def)
qed

lemma consume_progress:
  assumes "phase w \<noteq> Finished" "\<not> is_crashed (phase w)" "phase w \<noteq> Draining"
    "\<And>buf records. phase w \<noteq> In_send buf records"
  shows "\<exists>ev g' w'. consume_step pf ev (g, w) = Some (g', w')"
proof (cases "phase w")
  case At_check then show ?thesis by (intro exI [of _ Check_counter]) simp
next
  case In_poll then show ?thesis by (intro exI [of _ Poll_err]) simp
next
  case At_start_load then show ?thesis by (intro exI [of _ Load_start]) simp
next
  case (At_start_cas records)
  obtain g' w' where "cas_start None records (g, w) = (g', w')" by fastforce
  with At_start_cas show ?thesis by (intro exI [of _ "Cas_start None"]) simp
next
  case At_record then show ?thesis by (intro exI [of _ Next_record]) simp
qed (use assms in auto)

lemma worker_progress:
  assumes inv: "worker_inv pf w" and live: "phase w \<noteq> Finished" "\<not> is_crashed (phase w)"
  shows "\<exists>ev g' w'. worker_step pf ev (g, w) = Some (g', w')"
proof -
  have cons: "\<exists>ev g' w'. worker_step pf ev (g, w) = Some (g', w')"
    if "consume_step pf ev (g, w) = Some (g', w')" for ev g' w'
    using that by (intro exI [of _ "Consume ev"]) auto
  have prod: "\<exists>ev g' w'. worker_step pf ev (g, w) = Some (g', w')"
    if "produce_step ev (g, w) = Some (g', w')" for ev g' w'
    using that by (intro exI [of _ "Produce ev"]) auto
  consider (draining) "phase w = Draining" | (sending) buf records where "phase w = In_send buf records"
    | (other) "phase w \<noteq> Draining" "\<And>buf records. phase w \<noteq> In_send buf records"
    by blast
  then show ?thesis
  proof cases
    case draining
    show ?thesis
    proof (cases "task w = Task_running")
      case True
      with produce_progress [OF inv] draining prod show ?thesis by fastforce
    next
      case False
      with draining have "consume_step pf Join (g, w) = Some (g, w\<lparr>phase := Finished\<rparr>)" by simp
      with cons show ?thesis by blast
    qed
  next
    case sending
    from send_buf_or_produce [OF inv sending, of g] show ?thesis
    proof (elim disjE)
      assume "send_buf buf records w \<noteq> None"
      then obtain w' where "send_buf buf records w = Some w'" by auto
      with sending have "consume_step pf Send (g, w) = Some (g, w')" by simp
      with cons show ?thesis by blast
    qed (use prod in blast)
  next
    case other
    with consume_progress [OF live other] cons show ?thesis by blast
  qed
qed

text \<open>
  Once \<open>tx\<close> is dropped, every step of the worker decreases a measure: each buffer in the channel
  still costs a receive and a completion, each one in flight a completion, and three steps close
  the channel, end the task and join it.
\<close>

definition drain_measure :: "worker \<Rightarrow> nat" where
  "drain_measure w =
     2 * length (chan w) + length (in_flight w) + (if channel_open w then 1 else 0)
     + (if task w = Task_running then 1 else 0) + (if phase w = Draining then 1 else 0)"

lemma produce_step_phase: "produce_step ev (g, w) = Some (g', w') \<Longrightarrow> phase w' = phase w"
  by (cases ev)
    (auto simp: recv_buf_def complete_send_def task_exit_def Let_def
      split: if_splits list.splits phase.splits)

definition draining :: "profile \<Rightarrow> globals \<times> worker \<Rightarrow> bool" where
  "draining pf gw \<longleftrightarrow> worker_inv pf (snd gw) \<and> phase (snd gw) \<in> {Draining, Finished}"

lemma draining_step:
  assumes "draining pf gw" "worker_step pf ev gw = Some gw'"
  shows "draining pf gw'"
proof -
  obtain g w g' w' where gw: "gw = (g, w)" "gw' = (g', w')" by (cases gw, cases gw') auto
  have "worker_inv pf w'"
    using assms gw worker_step_inv by (auto simp: draining_def)
  moreover have "phase w' \<in> {Draining, Finished}"
    using assms gw
    by (cases ev)
      (auto simp: draining_def dest: produce_step_phase split: consume_event.splits if_splits
        simp del: produce_step.simps)
  ultimately show ?thesis by (simp add: draining_def gw)
qed

lemma recv_buf_measure:
  "recv_buf w = Some w' \<Longrightarrow> phase w = Draining \<Longrightarrow> drain_measure w' < drain_measure w"
  by (auto simp: drain_measure_def recv_buf_def recv_enabled_def split: if_splits list.splits)

lemma complete_send_measure:
  assumes "complete_send i sent_ok (g, w) = Some (g', w')"
  shows "drain_measure w' < drain_measure w"
proof -
  from assms have i: "i < length (in_flight w)"
    by (auto simp: complete_send_def split: if_splits)
  from assms have "chan w' = chan w" "channel_open w' = channel_open w" "task w' = task w"
    "phase w' = phase w" "in_flight w' = take i (in_flight w) @ drop (Suc i) (in_flight w)"
    by (auto simp: complete_send_def Let_def split: if_splits)
  with i show ?thesis by (simp add: drain_measure_def)
qed

lemma task_exit_measure:
  "task_exit (g, w) = Some (g', w') \<Longrightarrow> task w = Task_running \<Longrightarrow> drain_measure w' < drain_measure w"
  by (auto simp: drain_measure_def task_exit_def split: if_splits)

lemma draining_measure:
  assumes "draining pf gw" "worker_step pf ev gw = Some gw'"
  shows "drain_measure (snd gw') < drain_measure (snd gw)"
proof -
  obtain g w g' w' where gw: "gw = (g, w)" "gw' = (g', w')" by (cases gw, cases gw') auto
  have ph: "phase w = Draining \<or> phase w = Finished" and inv: "worker_inv pf w"
    using assms(1) by (auto simp: draining_def gw)
  show ?thesis
  proof (cases ev)
    case (Consume e)
    with ph assms(2) have "phase w = Draining" "w' = w\<lparr>phase := Finished\<rparr>"
      by (auto simp: gw split: consume_event.splits if_splits)
    then show ?thesis by (simp add: gw drain_measure_def)
  next
    case (Produce e)
    with assms(2) have step: "produce_step e (g, w) = Some (g', w')" by (simp add: gw)
    then have run: "task w = Task_running" by (auto split: if_splits)
    with inv ph have ph: "phase w = Draining" by (auto simp: worker_inv_def task_ok_def)
    show ?thesis
      using step run ph
      by (cases e) (auto simp: gw intro: recv_buf_measure complete_send_measure task_exit_measure)
  qed
qed

lemma draining_progress:
  assumes "draining pf gw" "phase (snd gw) \<noteq> Finished"
  shows "\<exists>ev gw'. worker_step pf ev gw = Some gw'"
proof -
  obtain g w where gw: "gw = (g, w)" by (cases gw) auto
  have "worker_inv pf w" "phase w = Draining" using assms gw by (auto simp: draining_def)
  from worker_progress [OF this(1), of g] this(2) assms(2) gw show ?thesis by auto
qed

lemma drain_terminates:
  assumes "worker_inv pf w" "phase w = Draining"
  shows "\<exists>evs g' w'. exec (worker_step pf) evs (g, w) = Some (g', w') \<and> phase w' = Finished
    \<and> worker_inv pf w' \<and> length evs \<le> drain_measure w"
proof -
  have "draining pf (g, w)" using assms by (simp add: draining_def)
  then have "\<exists>evs gw'. exec (worker_step pf) evs (g, w) = Some gw' \<and> draining pf gw'
      \<and> phase (snd gw') = Finished \<and> length evs \<le> drain_measure (snd (g, w))"
    using exec_terminates [where P = "draining pf" and m = "\<lambda>gw. drain_measure (snd gw)"
        and f = "worker_step pf" and goal = "\<lambda>gw. phase (snd gw) = Finished" and s = "(g, w)"]
      draining_step draining_measure draining_progress by blast
  then show ?thesis by (force simp: draining_def)
qed

lemma drain_bounded:
  assumes "worker_inv pf w" "phase w = Draining"
    and "exec (worker_step pf) evs (g, w) = Some (g', w')"
  shows "length evs \<le> drain_measure w"
proof -
  have "draining pf (g, w)" using assms by (simp add: draining_def)
  then have "length evs + drain_measure (snd (g', w')) \<le> drain_measure (snd (g, w))"
    using exec_bounded [where P = "draining pf" and m = "\<lambda>gw. drain_measure (snd gw)"
        and f = "worker_step pf" and s = "(g, w)" and s' = "(g', w')" and ls = evs]
      draining_step draining_measure assms(3) by blast
  then show ?thesis by simp
qed

lemma drain_measure_le: "worker_inv pf w \<Longrightarrow> drain_measure w \<le> 3 * worker_window + 3"
  by (auto simp: worker_inv_def queues_ok_def drain_measure_def)

section \<open>The end of the consume loop\<close>

text \<open>
  Polls that return nothing or an error, each after a counter check: an error does not count, and
  does not reset the count either.
\<close>

definition idle_polls :: "consume_event list \<Rightarrow> consume_event list" where
  "idle_polls results = concat (map (\<lambda>r. [Check_counter, r]) results)"

lemma idle_polls_simps [simp]:
  "idle_polls [] = []" "idle_polls (r # rs) = Check_counter # r # idle_polls rs"
  by (simp_all add: idle_polls_def)

lemma exec_idle_polls:
  assumes "set results \<subseteq> {Poll_err, Poll_ok []}" "phase w = At_check" "processed g < total_records"
    and "consecutive_empty w = of_nat e" "e + count_list results (Poll_ok []) < 3"
  shows "exec (consume_step pf) (idle_polls results) (g, w)
    = Some (g, w\<lparr>consecutive_empty := of_nat (e + count_list results (Poll_ok []))\<rparr>)"
  using assms
proof (induction results arbitrary: w e)
  case Nil
  then show ?case by simp
next
  case (Cons r rs)
  have "\<not> total_records \<le> processed g" using Cons.prems(3) by simp
  consider "r = Poll_err" | "r = Poll_ok []" using Cons.prems(1) by auto
  then show ?case
  proof cases
    case 1
    let ?w = "w\<lparr>phase := At_check\<rparr>"
    have "exec (consume_step pf) (idle_polls rs) (g, ?w)
        = Some (g, ?w\<lparr>consecutive_empty := of_nat (e + count_list rs (Poll_ok []))\<rparr>)"
      using Cons.prems 1 by (intro Cons.IH) simp_all
    with 1 Cons.prems(2) \<open>\<not> total_records \<le> processed g\<close> show ?thesis
      by (simp add: check_counter_def)
  next
    case 2
    let ?w = "w\<lparr>consecutive_empty := of_nat (Suc e)\<rparr>"
    have same: "w\<lparr>consecutive_empty := a, phase := At_check\<rparr> = w\<lparr>consecutive_empty := a\<rparr>" for a
      using Cons.prems(2) by (cases w) simp
    have "e \<le> 1" using Cons.prems(5) 2 by simp
    then consider "e = 0" | "e = 1" by linarith
    then have less: "\<not> 3 \<le> (of_nat e + 1 :: u32)" by cases (simp_all add: word_le_nat_alt)
    have "exec (consume_step pf) (idle_polls rs) (g, ?w)
        = Some (g, ?w\<lparr>consecutive_empty := of_nat (Suc e + count_list rs (Poll_ok []))\<rparr>)"
      using Cons.prems 2 by (intro Cons.IH) simp_all
    with 2 Cons.prems(2,4) less \<open>\<not> total_records \<le> processed g\<close> show ?thesis
      by (simp add: check_counter_def poll_ok_def Let_def same add.commute)
  qed
qed

lemma consume_step_Draining:
  assumes "worker_inv pf w" "consume_step pf ev (g, w) = Some (g', w')" "phase w' = Draining"
    and "phase w \<noteq> Draining"
  shows "(phase w = At_check \<and> total_records \<le> processed g)
    \<or> (phase w = In_poll \<and> ev = Poll_ok [] \<and> consecutive_empty w = 2)"
proof -
  have two: "unat (consecutive_empty w) < 3" if "tx_alive (phase w)"
    using assms(1) that by (simp add: worker_inv_def counters_ok_def)
  have run: "task w = Task_running" if "phase w = In_send buf records" for buf records
    using assms(1) that by (cases "task w") (auto simp: worker_inv_def task_ok_def)
  have "consecutive_empty w = 2"
    if "phase w = In_poll" "3 \<le> consecutive_empty w + 1"
    using two that u32_add_one [of "consecutive_empty w"] by (simp add: word_le_nat_alt word_unat_eq_iff)
  with assms(2-4) run show ?thesis
    by (cases "phase w"; cases ev)
      (auto simp: check_counter_def poll_ok_def load_start_def cas_start_def next_record_def
        send_buf_def Let_def split: if_splits option.splits list.splits sum.splits)
qed

text \<open>\<open>tx.send\<close> never finds the receiver gone while the consume loop runs.\<close>

lemma sending_task_running:
  "worker_inv pf w \<Longrightarrow> phase w = In_send buf records \<Longrightarrow> task w = Task_running"
  by (cases "task w") (auto simp: worker_inv_def task_ok_def)

text \<open>After an abort nothing more is sent.\<close>

lemma aborted_stuck:
  "worker_inv pf w \<Longrightarrow> task w = Task_aborted \<Longrightarrow> worker_step pf ev (g, w) = None"
  by (cases ev; cases "phase w") (auto simp: worker_inv_def task_ok_def)

lemma abort_enabled:
  assumes "phase w = Crashed p" "task w = Task_running"
  shows "worker_step pf (Produce Abort) (g, w)
    = Some (g, w\<lparr>task := Task_aborted, chan := [], in_flight := []\<rparr>)"
  using assms by simp

end
