(* ===== verification/Krafka_System.thy ===== *)
theory Krafka_System
  imports Krafka_Worker_Inv
begin

text \<open>
  Phase 2 of the krafka processor as a whole: \<open>NUM_WORKERS\<close> worker threads over the shared
  atomics, interleaved in any order. The invariant accounts for \<open>PROCESSED_COUNTER\<close>: it is the sum
  of what the workers have flushed, in multiples of 1000 until a worker's task ends.
\<close>

section \<open>The system\<close>

type_synonym system = "globals \<times> worker list"

text \<open>
  \<open>for worker_id in 0..num_workers { std::thread::spawn(...) }\<close>: a worker whose set-up fails panics
  before its task exists, the others are not affected.
\<close>

definition spawn_worker :: "worker_setup \<Rightarrow> u64 \<Rightarrow> worker" where
  "spawn_worker su worker_id =
     (case start_worker su worker_id of
        Inl p \<Rightarrow> worker_init\<lparr>phase := Crashed p, task := Task_aborted\<rparr>
      | Inr w \<Rightarrow> w)"

definition spawn_workers :: "(nat \<Rightarrow> worker_setup) \<Rightarrow> nat \<Rightarrow> worker list" where
  "spawn_workers su num_workers = map (\<lambda>i. spawn_worker (su i) (of_nat i)) [0..<num_workers]"

definition system_step_of :: "profile \<Rightarrow> nat \<times> worker_event \<Rightarrow> system \<Rightarrow> system option" where
  "system_step_of pf lab s = (case lab of (i, ev) \<Rightarrow> case s of (g, ws) \<Rightarrow>
     (if i < length ws
      then case worker_step pf ev (g, ws ! i) of
             None \<Rightarrow> None
           | Some (g', w') \<Rightarrow> Some (g', ws[i := w'])
      else None))"

inductive system_step :: "profile \<Rightarrow> system \<Rightarrow> system \<Rightarrow> bool" for pf :: profile where
  worker_moves: "i < length ws \<Longrightarrow> worker_step pf ev (g, ws ! i) = Some (g', w') \<Longrightarrow>
     system_step pf (g, ws) (g', ws[i := w'])"

inductive_cases system_stepE [elim]: "system_step pf (g, ws) s'"

definition system_init :: "(nat \<Rightarrow> worker_setup) \<Rightarrow> nat \<Rightarrow> system \<Rightarrow> bool" where
  "system_init su num_workers s \<longleftrightarrow> s = (globals_init, spawn_workers su num_workers)"

text \<open>\<open>for h in handles { let _ = h.join(); }\<close> returns when no worker thread runs any more.\<close>

definition all_joined :: "system \<Rightarrow> bool" where
  "all_joined s \<longleftrightarrow> list_all (\<lambda>w. phase w = Finished \<or> is_crashed (phase w)) (snd s)"

lemma system_step_of_step: "system_step_of pf lab s = Some s' \<Longrightarrow> system_step pf s s'"
  by (cases lab; cases s)
    (auto simp: system_step_of_def split: if_splits option.splits intro: worker_moves)

section \<open>Accounting\<close>

text \<open>What a worker has added to the shared counter.\<close>

definition flushed :: "worker \<Rightarrow> nat" where
  "flushed w = (if task w = Task_done then length (settled w)
                else length (settled w) - unat (local_counter w))"

definition total_flushed :: "worker list \<Rightarrow> nat" where
  "total_flushed ws = (\<Sum>w \<leftarrow> ws. flushed w)"

definition total_settled :: "worker list \<Rightarrow> nat" where
  "total_settled ws = (\<Sum>w \<leftarrow> ws. length (settled w))"

lemma flushed_bounds:
  "worker_inv pf w \<Longrightarrow> flushed w \<le> length (settled w) \<and> length (settled w) < flushed w + 1000"
  by (auto simp: flushed_def worker_inv_def counters_ok_def)

lemma flushed_dvd: "worker_inv pf w \<Longrightarrow> task w \<noteq> Task_done \<Longrightarrow> 1000 dvd flushed w"
  by (simp add: flushed_def worker_inv_def counters_ok_def)

text \<open>The fields that the accounting looks at.\<close>

lemma consume_step_frame:
  "consume_step pf ev (g, w) = Some (g', w') \<Longrightarrow>
   processed g' = processed g \<and> task w' = task w \<and> settled w' = settled w
   \<and> local_counter w' = local_counter w"
  by (cases "phase w"; cases ev)
    (auto simp: check_counter_def poll_ok_def load_start_def cas_start_def next_record_def
      send_buf_def Let_def split: if_splits option.splits list.splits sum.splits)

lemma recv_buf_frame:
  "recv_buf w = Some w' \<Longrightarrow>
   task w' = task w \<and> settled w' = settled w \<and> local_counter w' = local_counter w"
  by (auto simp: recv_buf_def split: if_splits list.splits)

lemma complete_send_counts:
  assumes inv: "worker_inv pf w" and run: "task w = Task_running"
    and step: "complete_send i sent_ok (g, w) = Some (g', w')"
  shows "processed g' + of_nat (flushed w) = processed g + of_nat (flushed w')"
proof -
  let ?a = "length (settled w)" and ?l = "unat (local_counter w)"
  have l: "?l < 1000" "?l \<le> ?a"
    using inv by (simp_all add: worker_inv_def counters_ok_def)
  have loc: "unat (local_counter w + 1) = ?l + 1" using l(1) by (rule u64_add_one)
  show ?thesis
  proof (cases "1000 \<le> local_counter w + 1")
    case True
    then have "?l + 1 = 1000" using l(1) loc by (simp add: word_le_nat_alt)
    moreover have "processed g' = processed g + (local_counter w + 1)" "flushed w' = ?a + 1"
      using step run True by (auto simp: complete_send_def Let_def flushed_def split: if_splits)
    moreover have "local_counter w + 1 = of_nat (?l + 1)" by simp
    ultimately show ?thesis using l run by (simp add: flushed_def of_nat_diff)
  next
    case False
    then have "processed g' = processed g" "flushed w' = ?a + 1 - unat (local_counter w + 1)"
      using step run by (auto simp: complete_send_def Let_def flushed_def split: if_splits)
    then show ?thesis using loc run by (simp add: flushed_def)
  qed
qed

lemma task_exit_counts:
  assumes inv: "worker_inv pf w" and run: "task w = Task_running"
    and step: "task_exit (g, w) = Some (g', w')"
  shows "processed g' + of_nat (flushed w) = processed g + of_nat (flushed w')"
proof -
  have l: "unat (local_counter w) \<le> length (settled w)"
    using inv by (simp add: worker_inv_def counters_ok_def)
  have "processed g' = processed g + local_counter w" "flushed w' = length (settled w)"
    using step by (auto simp: task_exit_def flushed_def word_gt_0 split: if_splits)
  then show ?thesis using run l by (simp add: flushed_def of_nat_diff)
qed

lemma worker_step_counts:
  assumes inv: "worker_inv pf w" and step: "worker_step pf ev (g, w) = Some (g', w')"
  shows "processed g' + of_nat (flushed w) = processed g + of_nat (flushed w')"
proof (cases ev)
  case (Consume e)
  with step consume_step_frame [of pf e g w g' w'] show ?thesis by (simp add: flushed_def)
next
  case (Produce e)
  with step have step: "produce_step e (g, w) = Some (g', w')" by simp
  then have run: "task w = Task_running" by (auto split: if_splits)
  show ?thesis
  proof (cases e)
    case Recv
    with step run recv_buf_frame [of w w'] show ?thesis by (auto simp: flushed_def)
  next
    case (Complete i sent_ok)
    with step run show ?thesis by (auto intro: complete_send_counts [OF inv run])
  next
    case Task_exit
    with step run show ?thesis by (auto intro: task_exit_counts [OF inv run])
  next
    case Abort
    with step run show ?thesis by (auto simp: flushed_def split: phase.splits)
  qed
qed

definition system_inv :: "profile \<Rightarrow> system \<Rightarrow> bool" where
  "system_inv pf s \<longleftrightarrow>
     list_all (worker_inv pf) (snd s) \<and> processed (fst s) = of_nat (total_flushed (snd s))"

lemma expect_eq: "expect msg ok = Panic p \<longleftrightarrow> \<not> ok \<and> p = Expect_failed msg"
  "expect msg ok = Ok u \<longleftrightarrow> ok"
  by (auto simp: expect_def)

lemma spawn_worker_cases:
  obtains (starts) "start_worker su i = Ok (worker_init\<lparr>assigned := [worker_partition i], seeks := [(worker_partition i, 0)]\<rparr>)"
      "spawn_worker su i = worker_init\<lparr>assigned := [worker_partition i], seeks := [(worker_partition i, 0)]\<rparr>"
    | (fails) msg where "start_worker su i = Panic (Expect_failed msg)"
      "spawn_worker su i = worker_init\<lparr>phase := Crashed (Expect_failed msg), task := Task_aborted\<rparr>"
proof -
  have "start_worker su i = Ok (worker_init\<lparr>assigned := [worker_partition i], seeks := [(worker_partition i, 0)]\<rparr>)
      \<or> (\<exists>msg. start_worker su i = Panic (Expect_failed msg))"
    by (simp add: start_worker_def expect_def Let_def)
  then show thesis using starts fails by (auto simp: spawn_worker_def)
qed

lemma spawn_worker_inv: "worker_inv pf (spawn_worker su i)"
  by (cases su i rule: spawn_worker_cases) (simp_all only: worker_inv_init worker_inv_setup_failed)

lemma spawn_worker_flushed: "flushed (spawn_worker su i) = 0"
  by (cases su i rule: spawn_worker_cases) (simp_all add: flushed_def worker_init_def)

lemma system_inv_init: "system_init su n s \<Longrightarrow> system_inv pf s"
  by (auto simp: system_init_def system_inv_def spawn_workers_def list_all_iff spawn_worker_inv
      total_flushed_def comp_def spawn_worker_flushed globals_init_def)

lemma system_inv_step:
  assumes "system_inv pf s" "system_step pf s s'"
  shows "system_inv pf s'"
  using assms(2)
proof cases
  case (worker_moves i ws ev g g' w')
  note inv = assms(1) [unfolded system_inv_def worker_moves(1) fst_conv snd_conv]
  have w: "worker_inv pf (ws ! i)" using inv worker_moves(3) by (simp add: list_all_length)
  have w': "worker_inv pf w'" by (rule worker_step_inv [OF w worker_moves(4)])
  have "list_all (worker_inv pf) (ws[i := w'])"
    using inv w' by (auto simp: list_all_iff dest!: subsetD [OF set_update_subset_insert])
  moreover have "processed g' = of_nat (total_flushed (ws[i := w']))"
  proof -
    have "total_flushed (ws[i := w']) + flushed (ws ! i) = total_flushed ws + flushed w'"
      unfolding total_flushed_def by (rule sum_list_nat_update [OF worker_moves(3)])
    then have "of_nat (total_flushed (ws[i := w'])) + of_nat (flushed (ws ! i))
        = (of_nat (total_flushed ws) + of_nat (flushed w') :: u64)"
      by (simp flip: of_nat_add)
    with worker_step_counts [OF w worker_moves(4)] inv show ?thesis
      by (metis add_right_cancel)
  qed
  ultimately show ?thesis by (simp add: system_inv_def worker_moves(2))
qed

interpretation krafka_system: invariant_machine "system_init su n" "system_step pf" "system_inv pf"
  for su n pf
  by unfold_locales (auto intro: system_inv_init system_inv_step)

section \<open>Reachable states\<close>

text \<open>
  Running a list of labels from the initial state reaches a state; the invariant then holds of each of
  its workers.
\<close>

lemma system_run:
  assumes "exec (system_step_of pf) labs (globals_init, spawn_workers su n) = Some s"
  shows "reachable (system_init su n) (system_step pf) s"
  by (rule exec_reachable [OF _ _ assms])
    (auto intro: system_step_of_step reachable_init simp: system_init_def)

lemma reachable_worker_inv:
  "reachable (system_init su n) (system_step pf) (g, ws) \<Longrightarrow> w \<in> set ws \<Longrightarrow> worker_inv pf w"
  using krafka_system.reachable_inv [of su n pf "(g, ws)"] by (auto simp: system_inv_def list_all_iff)

lemma reachable_processed:
  "reachable (system_init su n) (system_step pf) (g, ws) \<Longrightarrow> processed g = of_nat (total_flushed ws)"
  using krafka_system.reachable_inv [of su n pf "(g, ws)"] by (auto simp: system_inv_def)

lemma finished_pipeline:
  "worker_inv pf w \<Longrightarrow> phase w = Finished \<Longrightarrow>
   sent w = outputs pf (polled w) \<and> mset (settled w) = mset (sent w) \<and> chan w = [] \<and> in_flight w = []"
  by (auto simp: worker_inv_def worker_inv_defs)

lemma outputs_processed:
  "list_all2 (\<lambda>v buf. process_record pf (Some v) = Ok (Some buf)) vs bufs \<Longrightarrow>
   outputs pf (map Some vs) = bufs"
  by (induction rule: list_all2_induct) simp_all

text \<open>A step of the system is one of a worker, so what holds of every worker step holds of it.\<close>

lemma worker_step_start_nanos:
  "worker_step pf ev (g, w) = Some (g', w') \<Longrightarrow> start_nanos g' = start_nanos g \<or> start_nanos g = 0"
proof (cases ev)
  case (Consume e)
  then show "worker_step pf ev (g, w) = Some (g', w') \<Longrightarrow> ?thesis"
    by (cases "phase w"; cases e) (auto simp: cas_start_def split: option.splits if_splits)
next
  case (Produce e)
  then show "worker_step pf ev (g, w) = Some (g', w') \<Longrightarrow> ?thesis"
    by (cases e)
      (auto simp: complete_send_def task_exit_def Let_def split: if_splits phase.splits)
qed

lemma system_step_start_nanos:
  "system_step pf s s' \<Longrightarrow> start_nanos (fst s) \<noteq> 0 \<Longrightarrow> start_nanos (fst s') = start_nanos (fst s)"
  by (cases s; cases s') (auto dest: worker_step_start_nanos)

lemma total_flushed_finished:
  assumes "list_all (\<lambda>w. worker_inv pf w \<and> phase w = Finished) ws"
  shows "total_flushed ws = (\<Sum>w \<leftarrow> ws. length (outputs pf (polled w)))"
  using assms
proof (induction ws)
  case Nil
  then show ?case by (simp add: total_flushed_def)
next
  case (Cons w ws)
  then have w: "worker_inv pf w" "phase w = Finished" by simp_all
  then have "task w = Task_done" by (simp add: worker_inv_def task_ok_def)
  moreover have "length (settled w) = length (outputs pf (polled w))"
    using finished_pipeline [OF w] by (metis size_mset)
  ultimately show ?case using Cons by (simp add: total_flushed_def flushed_def)
qed

lemma total_flushed_bounds:
  "list_all (worker_inv pf) ws \<Longrightarrow>
   total_flushed ws \<le> total_settled ws \<and> total_settled ws \<le> total_flushed ws + 999 * length ws"
proof (induction ws)
  case Nil
  then show ?case by (simp add: total_flushed_def total_settled_def)
next
  case (Cons w ws)
  with flushed_bounds [of pf w] show ?case by (simp add: total_flushed_def total_settled_def)
qed

lemma total_flushed_dvd:
  "list_all (worker_inv pf) ws \<Longrightarrow> list_all (\<lambda>w. task w \<noteq> Task_done) ws \<Longrightarrow> 1000 dvd total_flushed ws"
  by (induction ws) (auto simp: total_flushed_def intro!: dvd_add flushed_dvd)

lemma system_progress:
  assumes "reachable (system_init su n) (system_step pf) s" "\<not> all_joined s"
  shows "\<exists>s'. system_step pf s s'"
proof -
  obtain g ws where s: "s = (g, ws)" by (cases s)
  from assms(2) obtain i where i: "i < length ws" "phase (ws ! i) \<noteq> Finished" "\<not> is_crashed (phase (ws ! i))"
    by (auto simp: all_joined_def list_all_length s)
  with reachable_worker_inv [OF assms(1) [unfolded s]] have "worker_inv pf (ws ! i)" by simp
  from worker_progress [OF this i(2,3), of g] obtain ev g' w'
    where "worker_step pf ev (g, ws ! i) = Some (g', w')" by blast
  with i(1) show ?thesis unfolding s by (blast intro: worker_moves)
qed

section \<open>Set-up and crashes\<close>

text \<open>
  A running worker panics in two actions only, with a record polled; what a crashed one was given, and the
  partitions of any, do not change.
\<close>

lemma crash_step:
  assumes "worker_inv pf w" "worker_step pf ev (g, w) = Some (g', w')" "phase w' = Crashed p"
    and "\<not> is_crashed (phase w)"
  shows "polled w' \<noteq> [] \<and> (ev = Consume (Cas_start None) \<or> ev = Consume Next_record)"
proof (cases ev)
  case (Consume e)
  with assms show ?thesis
    by (cases "phase w"; cases e)
      (auto simp: worker_inv_def crash_ok_def check_counter_def poll_ok_def load_start_def cas_start_def
        next_record_def send_buf_def Let_def split: if_splits option.splits list.splits sum.splits)
next
  case (Produce e)
  with assms produce_step_phase [of e g w g' w'] show ?thesis by (simp del: produce_step.simps)
qed

lemma produce_step_keeps:
  "produce_step ev (g, w) = Some (g', w') \<Longrightarrow> polled w' = polled w \<and> assigned w' = assigned w \<and> seeks w' = seeks w"
  by (cases ev)
    (auto simp: recv_buf_def complete_send_def task_exit_def Let_def split: if_splits list.splits phase.splits)

lemma consume_step_keeps:
  "consume_step pf ev (g, w) = Some (g', w') \<Longrightarrow>
   assigned w' = assigned w \<and> seeks w' = seeks w \<and> \<not> is_crashed (phase w)"
  by (cases "phase w"; cases ev)
    (auto simp: check_counter_def poll_ok_def load_start_def cas_start_def next_record_def
      send_buf_def Let_def split: if_splits option.splits list.splits sum.splits)

lemma worker_step_keeps:
  assumes "worker_step pf ev (g, w) = Some (g', w')"
  shows "assigned w' = assigned w \<and> seeks w' = seeks w
    \<and> (is_crashed (phase w) \<longrightarrow> phase w' = phase w \<and> polled w' = polled w)"
  using assms produce_step_keeps produce_step_phase consume_step_keeps
  by (cases ev) (fastforce simp del: produce_step.simps consume_step.simps)+

text \<open>What the set-up of each worker leaves in every reachable state.\<close>

definition setup_ok :: "(nat \<Rightarrow> worker_setup) \<Rightarrow> nat \<Rightarrow> system \<Rightarrow> bool" where
  "setup_ok su n s \<longleftrightarrow> length (snd s) = n
     \<and> (\<forall>i < n. let w = snd s ! i; w0 = spawn_worker (su i) (of_nat i) in
          assigned w = assigned w0 \<and> seeks w = seeks w0
          \<and> (\<forall>p. phase w = Crashed p \<and> polled w = [] \<longrightarrow> start_worker (su i) (of_nat i) = Panic p))"

lemma spawn_worker_crashed: "phase (spawn_worker su i) = Crashed p \<Longrightarrow> start_worker su i = Panic p"
  by (cases su i rule: spawn_worker_cases) (auto simp: worker_init_def)

lemma setup_ok_init: "system_init su n s \<Longrightarrow> setup_ok su n s"
  by (auto simp: setup_ok_def system_init_def spawn_workers_def Let_def spawn_worker_crashed)

lemma setup_ok_step:
  assumes "setup_ok su n s" "list_all (worker_inv pf) (snd s)" "system_step pf s s'"
  shows "setup_ok su n s'"
  using assms(3)
proof cases
  case (worker_moves i ws ev g g' w')
  have inv: "worker_inv pf (ws ! i)" using assms(2) worker_moves by (simp add: list_all_length)
  have "start_worker (su i) (of_nat i) = Panic p" if "phase w' = Crashed p" "polled w' = []" for p
  proof (cases "is_crashed (phase (ws ! i))")
    case True
    with worker_step_keeps [OF worker_moves(4)] that assms(1) worker_moves
    show ?thesis by (auto simp: setup_ok_def Let_def)
  next
    case False
    with crash_step [OF inv worker_moves(4) that(1)] that(2) show ?thesis by simp
  qed
  then show ?thesis
    using assms(1) worker_step_keeps [OF worker_moves(4)] worker_moves
    by (auto simp: setup_ok_def Let_def nth_list_update)
qed

lemma reachable_setup_ok: "reachable (system_init su n) (system_step pf) s \<Longrightarrow> setup_ok su n s"
proof (induction rule: reachable.induct)
  case (reachable_init s)
  then show ?case by (rule setup_ok_init)
next
  case (reachable_step s s')
  then have "list_all (worker_inv pf) (snd s)"
    using krafka_system.reachable_inv [of su n pf s] by (simp add: system_inv_def)
  with reachable_step show ?case by (blast intro: setup_ok_step)
qed

lemma reachable_setup:
  assumes "reachable (system_init su n) (system_step pf) (g, ws)"
  shows "length ws = n"
    and "i < n \<Longrightarrow> assigned (ws ! i) = assigned (spawn_worker (su i) (of_nat i))
      \<and> seeks (ws ! i) = seeks (spawn_worker (su i) (of_nat i))"
    and "i < n \<Longrightarrow> phase (ws ! i) = Crashed p \<Longrightarrow> polled (ws ! i) = [] \<Longrightarrow>
      start_worker (su i) (of_nat i) = Panic p"
  using reachable_setup_ok [OF assms] by (auto simp: setup_ok_def Let_def)

section \<open>A sample run\<close>

text \<open>
  One worker, one record with the values 3 and 4: it is polled, summed, sent and its send completes, three
  empty polls end the loop, the task drains and is joined. \<open>sample k\<close> is the state after \<open>k\<close> steps.
\<close>

definition setup_succeeds :: worker_setup where
  "setup_succeeds = \<lparr>runtime_ok = True, producer_ok = True, consumer_ok = True,
     assign_ok = (\<lambda>_. True), seek_ok = (\<lambda>_. True)\<rparr>"

definition sample_labels :: "(nat \<times> worker_event) list" where
  "sample_labels = map (Pair 0)
     [Consume Check_counter, Consume (Poll_ok [Some (write_record write_varint [3, 4])]),
      Consume Load_start, Consume (Cas_start (Some 7)), Consume Next_record, Consume Send,
      Consume Next_record, Consume Check_counter, Produce Recv, Produce (Complete 0 True),
      Consume (Poll_ok []), Consume Check_counter, Consume (Poll_ok []), Consume Check_counter,
      Consume (Poll_ok []), Produce Recv, Produce Task_exit, Consume Join]"

definition sample :: "nat \<Rightarrow> system" where
  "sample k = the (exec (system_step_of Debug) (take k sample_labels)
     (globals_init, spawn_workers (\<lambda>_. setup_succeeds) 1))"

definition sample_worker :: "nat \<Rightarrow> worker" where
  "sample_worker k = hd (snd (sample k))"

lemma sample_runs:
  "exec (system_step_of Debug) sample_labels (globals_init, spawn_workers (\<lambda>_. setup_succeeds) 1) \<noteq> None"
  by code_simp

lemma sample_reachable:
  "reachable (system_init (\<lambda>_. setup_succeeds) 1) (system_step Debug) (fst (sample k), snd (sample k))"
  using exec_take [OF sample_runs, of k]
  by (intro system_run [of Debug "take k sample_labels"]) (simp add: sample_def)

lemma spawn_workers_length: "length (spawn_workers su n) = n"
  by (simp add: spawn_workers_def)

lemma exec_length: "exec (system_step_of pf) labs s = Some s' \<Longrightarrow> length (snd s') = length (snd s)"
  by (induction labs arbitrary: s) (auto simp: system_step_of_def split: option.splits prod.splits if_splits)

lemma sample_in: "sample_worker k \<in> set (snd (sample k))"
proof -
  obtain s where "exec (system_step_of Debug) (take k sample_labels)
      (globals_init, spawn_workers (\<lambda>_. setup_succeeds) 1) = Some s"
    using exec_take [OF sample_runs, of k] by auto
  with exec_length [OF this] have "length (snd (sample k)) = 1"
    by (simp add: sample_def spawn_workers_length)
  then show ?thesis by (cases "snd (sample k)") (simp_all add: sample_worker_def)
qed

section \<open>Properties\<close>



text \<open>
  C15: At every moment the buffers of the records polled so far are those sent, then those in the
  channel, then those the consume loop still holds; a crash can only lose a tail of them, and the sends
  that completed are among those started.
\<close>

theorem worker_pipeline:
  assumes "reachable (system_init su n) (system_step pf) (g, ws)" "w \<in> set ws"
  shows "(if is_crashed (phase w)
      then \<exists>lost. outputs pf (polled w) = sent w @ chan w @ lost
      else outputs pf (polled w) = sent w @ chan w @ pending_outputs pf (phase w))
    \<and> mset (settled w) \<subseteq># mset (sent w)"
  using reachable_worker_inv [OF assms]
  by (auto simp: worker_inv_def pipeline_ok_def sends_ok_def split: if_splits)

theorem worker_pipeline_witness:
  "outputs Debug (polled (sample_worker 6))
     = sent (sample_worker 6) @ chan (sample_worker 6) @ pending_outputs Debug (phase (sample_worker 6))
   \<and> mset (settled (sample_worker 6)) \<subseteq># mset (sent (sample_worker 6))"
proof -
  have "\<not> is_crashed (phase (sample_worker 6))" by code_simp
  with worker_pipeline [OF sample_reachable sample_in, of 6] show ?thesis by simp
qed

text \<open>
  C20: Memory is bounded: the channel and the sends in flight hold at most 10000 buffers each, so what a
  worker has polled beyond what has been settled is at most 20000 outputs and those of the batch in hand.
\<close>

theorem worker_bounded:
  assumes "reachable (system_init su n) (system_step pf) (g, ws)" "w \<in> set ws"
  shows "length (chan w) \<le> 10000 \<and> length (in_flight w) \<le> 10000
    \<and> (\<not> is_crashed (phase w) \<longrightarrow> length (outputs pf (polled w))
        \<le> length (settled w) + 20000 + length (pending_outputs pf (phase w)))"
proof -
  have inv: "worker_inv pf w" by (rule reachable_worker_inv [OF assms])
  have q: "length (chan w) \<le> 10000" "length (in_flight w) \<le> 10000"
    using inv by (simp_all add: worker_inv_def queues_ok_def worker_window_def)
  have "length (sent w) = length (settled w) + length (in_flight w)" if "\<not> is_crashed (phase w)"
  proof -
    from inv that have "mset (sent w) = mset (settled w) + mset (in_flight w)"
      by (auto simp: worker_inv_def sends_ok_def task_ok_def split: if_splits)
    then show ?thesis by (metis size_mset size_union)
  qed
  with inv q show ?thesis by (auto simp: worker_inv_def pipeline_ok_def)
qed

theorem worker_bounded_witness:
  "length (chan (sample_worker 6)) \<le> 10000 \<and> length (in_flight (sample_worker 6)) \<le> 10000
   \<and> length (outputs Debug (polled (sample_worker 6)))
     \<le> length (settled (sample_worker 6)) + 20000 + length (pending_outputs Debug (phase (sample_worker 6)))"
proof -
  have "\<not> is_crashed (phase (sample_worker 6))" by code_simp
  with worker_bounded [OF sample_reachable sample_in, of 6] show ?thesis by blast
qed



text \<open>
  C24: While the workers run, the counter trails the completed sends by less than 1000 per worker, and
  is a multiple of 1000 as long as no worker's task has ended.
\<close>

theorem counter_lag:
  assumes "reachable (system_init su n) (system_step pf) (g, ws)" "total_settled ws < 2 ^ 64"
  shows "unat (processed g) \<le> total_settled ws
    \<and> total_settled ws \<le> unat (processed g) + 999 * length ws
    \<and> (list_all (\<lambda>w. task w \<noteq> Task_done) ws \<longrightarrow> unat (processed g) mod 1000 = 0)"
proof -
  have inv: "list_all (worker_inv pf) ws"
    using reachable_worker_inv [OF assms(1)] by (simp add: list_all_iff)
  note b = total_flushed_bounds [OF inv]
  have "unat (processed g) = total_flushed ws"
    using reachable_processed [OF assms(1)] b assms(2) by (simp add: unat_of_nat)
  with b total_flushed_dvd [OF inv] show ?thesis by auto
qed

theorem counter_lag_witness:
  "unat (processed (fst (sample 12))) \<le> total_settled (snd (sample 12))
   \<and> total_settled (snd (sample 12)) \<le> unat (processed (fst (sample 12))) + 999 * length (snd (sample 12))
   \<and> unat (processed (fst (sample 12))) mod 1000 = 0"
proof -
  have "total_settled (snd (sample 12)) = 1" by code_simp
  then have "total_settled (snd (sample 12)) < 2 ^ 64" by simp
  moreover have "list_all (\<lambda>w. task w \<noteq> Task_done) (snd (sample 12))" by code_simp
  ultimately show ?thesis using counter_lag [OF sample_reachable, of 12] by blast
qed

text \<open>
  C14: No deadlock: as long as a worker thread has not ended, some worker can make a step. In
  particular \<open>tx.send(buf).await\<close> and \<open>produce_task.await\<close> never wait for each other.
\<close>

theorem no_deadlock:
  assumes "reachable (system_init su n) (system_step pf) s" "\<not> all_joined s"
  shows "\<exists>s'. system_step pf s s'"
  by (rule system_progress [OF assms])

theorem no_deadlock_witness:
  "\<exists>s'. system_step Debug (fst (sample 15), snd (sample 15)) s'"
  by (rule no_deadlock [OF sample_reachable]) code_simp

text \<open>
  After the consume loop a worker always ends: its drain can be completed, and no run of it, in
  whatever order receives and completions come, is longer than 30003 steps.
\<close>

lemma drain_ends:
  assumes "reachable (system_init su n) (system_step pf) (g, ws)" "w \<in> set ws" "phase w = Draining"
  shows "(\<exists>evs g' w'. exec (worker_step pf) evs (g, w) = Some (g', w') \<and> phase w' = Finished)
    \<and> (exec (worker_step pf) evs (g, w) = Some gw' \<longrightarrow> length evs \<le> 30003)"
proof -
  have inv: "worker_inv pf w" by (rule reachable_worker_inv [OF assms(1,2)])
  have "drain_measure w \<le> 30003" using drain_measure_le [OF inv] by (simp add: worker_window_def)
  with drain_bounded [OF inv assms(3), of evs g "fst gw'" "snd gw'"] drain_terminates [OF inv assms(3), of g]
  show ?thesis by (metis order_trans prod.collapse)
qed

lemma drain_ends_witness:
  "(\<exists>evs g' w'. exec (worker_step Debug) evs (fst (sample 15), sample_worker 15) = Some (g', w')
      \<and> phase w' = Finished)
   \<and> length [Produce Recv, Produce Task_exit] \<le> 30003"
proof -
  have "phase (sample_worker 15) = Draining" by code_simp
  note drain_ends [OF sample_reachable sample_in this]
  moreover have "exec (worker_step Debug) [Produce Recv, Produce Task_exit] (fst (sample 15), sample_worker 15)
      \<noteq> None"
    by code_simp
  ultimately show ?thesis by blast
qed

text \<open>
  C29: The \<open>select!\<close> of the produce task never has all its branches disabled (which would panic), and a
  send to the channel never finds the receiver gone, so the \<open>break 'consume\<close> is never taken.
\<close>

theorem select_and_send_safe:
  assumes "reachable (system_init su n) (system_step pf) (g, ws)" "w \<in> set ws"
  shows "(task_loop_guard w \<longrightarrow> recv_enabled w \<or> next_enabled w)
    \<and> (phase w = In_send buf records \<longrightarrow> send_buf buf records w \<noteq> Some (w\<lparr>phase := Draining\<rparr>))"
proof -
  have inv: "worker_inv pf w" by (rule reachable_worker_inv [OF assms])
  have "phase w' = At_record records"
    if "phase w = In_send buf records" "send_buf buf records w = Some w'" for w'
    using that sending_task_running [OF inv that(1)] by (auto simp: send_buf_def split: if_splits)
  then show ?thesis using select_has_branch [of w] by fastforce
qed

theorem select_and_send_safe_witness:
  "(recv_enabled (sample_worker 5) \<or> next_enabled (sample_worker 5))
   \<and> send_buf [14] [] (sample_worker 5) \<noteq> Some (sample_worker 5\<lparr>phase := Draining\<rparr>)"
proof -
  have "task_loop_guard (sample_worker 5)" "phase (sample_worker 5) = In_send [14] []" by code_simp+
  with select_and_send_safe [OF sample_reachable sample_in, of 5 "[14]" "[]"] show ?thesis by blast
qed



text \<open>
  C26: The third empty poll ends the loop, in benchmark mode or not: below the total, empty polls and
  failed polls in any order leave the worker polling until three polls were empty (a failed one neither
  counts nor resets the count), and the next empty poll after two is the last.
\<close>

theorem three_empty_polls:
  assumes "phase w = At_check" "consecutive_empty w = 0" "processed g < total_records"
    and "set results \<subseteq> {Poll_err, Poll_ok []}" "count_list results (Poll_ok []) \<le> 2"
  shows "exec (consume_step pf) (idle_polls results) (g, w)
      = Some (g, w\<lparr>consecutive_empty := of_nat (count_list results (Poll_ok []))\<rparr>)
    \<and> (count_list results (Poll_ok []) = 2 \<longrightarrow>
        exec (consume_step pf) (idle_polls (results @ [Poll_ok []])) (g, w)
        = Some (g, w\<lparr>consecutive_empty := 3, phase := Draining\<rparr>))"
proof -
  have run: "exec (consume_step pf) (idle_polls results) (g, w)
      = Some (g, w\<lparr>consecutive_empty := of_nat (count_list results (Poll_ok []))\<rparr>)"
    using exec_idle_polls [of results w g 0 pf] assms by simp
  moreover have "exec (consume_step pf) (idle_polls (results @ [Poll_ok []])) (g, w)
      = Some (g, w\<lparr>consecutive_empty := 3, phase := Draining\<rparr>)"
    if "count_list results (Poll_ok []) = 2"
  proof -
    have "idle_polls (results @ [Poll_ok []]) = idle_polls results @ [Check_counter, Poll_ok []]"
      by (simp add: idle_polls_def)
    with run that assms(1,3) show ?thesis
      by (simp add: exec_append check_counter_def poll_ok_def Let_def)
  qed
  ultimately show ?thesis by blast
qed

theorem three_empty_polls_witness:
  "exec (consume_step Debug) (idle_polls [Poll_ok [], Poll_err, Poll_ok []]) (globals_init, worker_init)
     = Some (globals_init, worker_init\<lparr>consecutive_empty := 2\<rparr>)
   \<and> exec (consume_step Debug) (idle_polls [Poll_ok [], Poll_err, Poll_ok [], Poll_ok []]) (globals_init, worker_init)
     = Some (globals_init, worker_init\<lparr>consecutive_empty := 3, phase := Draining\<rparr>)"
  using three_empty_polls [of worker_init globals_init "[Poll_ok [], Poll_err, Poll_ok []]" Debug]
  by (simp add: worker_init_def globals_init_def total_records_def del: idle_polls_simps consume_step.simps)

text \<open>
  \<open>START_NANOS\<close> is written once: whatever the workers do after it is set, it keeps its value.
\<close>

lemma start_written_once:
  assumes "(system_step pf)\<^sup>*\<^sup>* s s'" "start_nanos (fst s) \<noteq> 0"
  shows "start_nanos (fst s') = start_nanos (fst s)"
  using assms by (induction rule: rtranclp_induct) (auto dest: system_step_start_nanos)

lemma start_written_once_witness:
  "start_nanos (fst (globals_init\<lparr>start_nanos := 7\<rparr>, [worker_init\<lparr>phase := At_record []\<rparr>]))
   = start_nanos (fst (globals_init\<lparr>start_nanos := 7\<rparr>, [worker_init\<lparr>phase := At_start_cas []\<rparr>]))"
proof (rule start_written_once [of Debug])
  let ?s = "(globals_init\<lparr>start_nanos := 7\<rparr>, [worker_init\<lparr>phase := At_start_cas []\<rparr>])"
    and ?t = "(globals_init\<lparr>start_nanos := 7\<rparr>, [worker_init\<lparr>phase := At_record []\<rparr>])"
  have "system_step_of Debug (0, Consume (Cas_start (Some 9))) ?s = Some ?t" by code_simp
  then show "(system_step Debug)\<^sup>*\<^sup>* ?s ?t" by (blast dest: system_step_of_step)
  show "start_nanos (fst ?s) \<noteq> 0" by code_simp
qed

text \<open>
  C21: A worker crashes because its set-up fails, before it has polled anything; because the clock stands before the
  epoch; or because a record it was given makes the decoder panic. A running worker panics only where it
  reads the clock or takes the next record: never on a poll, whatever it returns, nor in the pipeline.
\<close>

theorem crash_causes:
  assumes "reachable (system_init su n) (system_step pf) (g, ws)" "i < length ws"
  shows "(phase (ws ! i) = Crashed p \<longrightarrow>
        start_worker (su i) (of_nat i) = Panic p \<and> polled (ws ! i) = []
        \<or> p = Expect_failed ''SystemTimeError'' \<and> polled (ws ! i) \<noteq> []
        \<or> (\<exists>v \<in> set (polled (ws ! i)). process_record pf v = Panic p))
    \<and> (worker_step pf ev (g, ws ! i) = Some (g', w') \<longrightarrow> is_crashed (phase w') \<longrightarrow> \<not> is_crashed (phase (ws ! i)) \<longrightarrow>
        ev = Consume (Cas_start None) \<or> ev = Consume Next_record)"
proof -
  have inv: "worker_inv pf (ws ! i)" using reachable_worker_inv [OF assms(1)] assms(2) by simp
  have "ev = Consume (Cas_start None) \<or> ev = Consume Next_record"
    if "worker_step pf ev (g, ws ! i) = Some (g', w')" "is_crashed (phase w')" "\<not> is_crashed (phase (ws ! i))"
    using that crash_step [OF inv that(1) _ that(3)] by (cases "phase w'") auto
  moreover have "start_worker (su i) (of_nat i) = Panic p" if "phase (ws ! i) = Crashed p" "polled (ws ! i) = []"
    using that assms(2) reachable_setup(1) [OF assms(1)] by (intro reachable_setup(3) [OF assms(1)]) simp_all
  ultimately show ?thesis
    using inv by (auto simp: worker_inv_def crash_ok_def simp del: worker_step.simps)
qed

definition crash_labels :: "(nat \<times> worker_event) list" where
  "crash_labels = map (Pair 0)
     [Consume Check_counter, Consume (Poll_ok [Some (write_record write_varint [3, 4]), Some []]),
      Consume Load_start, Consume (Cas_start (Some 7)), Consume Next_record, Consume Send,
      Consume Next_record, Produce Abort]"

definition crashed_sample :: system where
  "crashed_sample = the (exec (system_step_of Debug) crash_labels
     (globals_init, spawn_workers (\<lambda>_. setup_succeeds) 1))"

lemma crash_runs:
  "exec (system_step_of Debug) crash_labels (globals_init, spawn_workers (\<lambda>_. setup_succeeds) 1) \<noteq> None"
  by code_simp

lemma crashed_sample_reachable:
  "reachable (system_init (\<lambda>_. setup_succeeds) 1) (system_step Debug) (fst crashed_sample, snd crashed_sample)"
  using crash_runs by (intro system_run [of Debug crash_labels]) (simp add: crashed_sample_def)

theorem crash_causes_witness:
  "(\<exists>v \<in> set (polled (snd crashed_sample ! 0)). process_record Debug v = Panic Index_out_of_bounds)
   \<and> \<not> (case worker_step Debug (Consume Poll_err) (fst (sample 1), snd (sample 1) ! 0) of
          None \<Rightarrow> False | Some (g', w') \<Rightarrow> is_crashed (phase w'))"
proof
  have "0 < length (snd crashed_sample)" "phase (snd crashed_sample ! 0) = Crashed Index_out_of_bounds"
    "polled (snd crashed_sample ! 0) \<noteq> []"
    by code_simp+
  with crash_causes [OF crashed_sample_reachable, of 0 Index_out_of_bounds]
  show "\<exists>v \<in> set (polled (snd crashed_sample ! 0)). process_record Debug v = Panic Index_out_of_bounds"
    by simp
  have "0 < length (snd (sample 1))" "\<not> is_crashed (phase (snd (sample 1) ! 0))" by code_simp+
  with crash_causes [OF sample_reachable, of 0 1]
  show "\<not> (case worker_step Debug (Consume Poll_err) (fst (sample 1), snd (sample 1) ! 0) of
      None \<Rightarrow> False | Some (g', w') \<Rightarrow> is_crashed (phase w'))"
    by (auto split: option.splits simp del: worker_step.simps)
qed

text \<open>
  C22: One malformed record takes down its worker and what was queued before it: in this run a worker
  polls a good record and an empty value; the sum of the good one is computed and enqueued, but the
  panic drops the channel with the task, and the worker, with no step left, has sent nothing.
\<close>

theorem bad_record_loses_queue:
  "\<exists>g w. reachable (system_init (\<lambda>_. setup_succeeds) 1) (system_step Debug) (g, [w])
     \<and> outputs Debug (polled w) = [write_varint [] 7] \<and> sent w = [] \<and> settled w = []
     \<and> phase w = Crashed Index_out_of_bounds \<and> (\<forall>ev. worker_step Debug ev (g, w) = None)"
proof -
  obtain g w where s: "(fst crashed_sample, snd crashed_sample) = (g, [w])"
    and w: "w = hd (snd crashed_sample)"
  proof -
    have "length (snd crashed_sample) = 1" by code_simp
    then show ?thesis using that by (cases "snd crashed_sample") auto
  qed
  have r: "reachable (system_init (\<lambda>_. setup_succeeds) 1) (system_step Debug) (g, [w])"
    using crashed_sample_reachable s by simp
  have "task w = Task_aborted" "outputs Debug (polled w) = [write_varint [] 7]" "sent w = []" "settled w = []"
    "phase w = Crashed Index_out_of_bounds"
    unfolding w by code_simp+
  moreover from r have "worker_inv Debug w" by (rule reachable_worker_inv) simp
  ultimately show ?thesis using r aborted_stuck by blast
qed

text \<open>
  C27: The flags and counters of a worker are always consistent: a closed channel is empty and has lost its
  sender, a task that is done has drained its window, a task is aborted only by a crash, a finished worker
  has awaited its task, the batch counter is below 1000 and the count of empty polls below 3 while the loop
  runs, so that neither addition can overflow.
\<close>

theorem worker_well_formed:
  assumes "reachable (system_init su n) (system_step pf) (g, ws)" "w \<in> set ws"
  shows "(channel_open w \<or> chan w = [] \<and> \<not> tx_alive (phase w))
    \<and> (case task w of
          Task_running \<Rightarrow> phase w \<noteq> Finished
        | Task_done \<Rightarrow> \<not> channel_open w \<and> in_flight w = []
        | Task_aborted \<Rightarrow> is_crashed (phase w))
    \<and> unat (local_counter w) < 1000 \<and> unat (consecutive_empty w) \<le> 3
    \<and> (tx_alive (phase w) \<longrightarrow> unat (consecutive_empty w) < 3)"
  using reachable_worker_inv [OF assms]
  by (auto simp: worker_inv_def task_ok_def counters_ok_def split: task.splits)

theorem worker_well_formed_witness:
  "channel_open (sample_worker 9) \<and> unat (local_counter (sample_worker 9)) < 1000
   \<and> unat (consecutive_empty (sample_worker 9)) < 3"
proof -
  have "tx_alive (phase (sample_worker 9))" by code_simp
  with worker_well_formed [OF sample_reachable sample_in, of 9] show ?thesis by blast
qed

end
