(* ===== verification/Summing_Service.thy ===== *)
theory Summing_Service
  imports Machine Prelude
begin

text \<open>
  What a worker of either stream processor promises, without channels, windows, tasks or counters:
  it is given records, it delivers one output for each record that has one, in the order of the
  records, some deliveries are resolved (they have come to an end, a good or a bad one), and it completes
  only when nothing is owed. The outputs of a list of records and whether completion waits until every
  delivery is resolved are parameters; the two
  processors refine the service with different ones.
\<close>

datatype status = Serving | Completed | Failed

record service =
  given :: "u8 list option list"
  delivered :: "u8 list list"
  resolved :: "u8 list list"
  status :: status

definition service_init :: "service \<Rightarrow> bool" where
  "service_init v \<longleftrightarrow> given v = [] \<and> delivered v = [] \<and> resolved v = [] \<and> status v \<noteq> Completed"

inductive service_step ::
  "(u8 list option list \<Rightarrow> u8 list list) \<Rightarrow> bool \<Rightarrow> service \<Rightarrow> service \<Rightarrow> bool"
  for outs :: "u8 list option list \<Rightarrow> u8 list list" and waits :: bool
where
  take_records: "status v = Serving \<Longrightarrow> service_step outs waits v (v\<lparr>given := given v @ vs\<rparr>)"
| deliver: "status v \<noteq> Completed \<Longrightarrow> outs (given v) = delivered v @ buf # later \<Longrightarrow>
    service_step outs waits v (v\<lparr>delivered := delivered v @ [buf]\<rparr>)"
| resolve: "status v \<noteq> Completed \<Longrightarrow> mset (resolved v @ [buf]) \<subseteq># mset (delivered v) \<Longrightarrow>
    service_step outs waits v (v\<lparr>resolved := resolved v @ [buf]\<rparr>)"
| complete: "status v = Serving \<Longrightarrow> outs (given v) = delivered v \<Longrightarrow>
    (waits \<Longrightarrow> mset (resolved v) = mset (delivered v)) \<Longrightarrow>
    service_step outs waits v (v\<lparr>status := Completed\<rparr>)"
| fail: "status v = Serving \<Longrightarrow> service_step outs waits v (v\<lparr>status := Failed\<rparr>)"

text \<open>Several services, one of which moves.\<close>

inductive services_step ::
  "(u8 list option list \<Rightarrow> u8 list list) \<Rightarrow> bool \<Rightarrow> service list \<Rightarrow> service list \<Rightarrow> bool"
  for outs :: "u8 list option list \<Rightarrow> u8 list list" and waits :: bool
where
  one_moves: "i < length vs \<Longrightarrow> service_step outs waits (vs ! i) v' \<Longrightarrow>
    services_step outs waits vs (vs[i := v'])"

definition services_init :: "nat \<Rightarrow> service list \<Rightarrow> bool" where
  "services_init n vs \<longleftrightarrow> length vs = n \<and> list_all service_init vs"

text \<open>A run of one service is a run of them all.\<close>

lemma services_run:
  assumes "(service_step outs waits)\<^sup>*\<^sup>* v v'" "i < length vs" "vs ! i = v"
  shows "(services_step outs waits)\<^sup>*\<^sup>* vs (vs[i := v'])"
  using assms
proof (induction rule: rtranclp_induct)
  case base
  then show ?case by auto
next
  case (step u u')
  have "services_step outs waits (vs[i := u]) ((vs[i := u])[i := u'])"
    using step by (intro one_moves) simp_all
  with step show ?case by (simp add: rtranclp.rtrancl_into_rtrancl)
qed

section \<open>What the service guarantees\<close>

definition service_ok ::
  "(u8 list option list \<Rightarrow> u8 list list) \<Rightarrow> bool \<Rightarrow> service \<Rightarrow> bool"
where
  "service_ok outs waits v \<longleftrightarrow>
     (\<exists>later. outs (given v) = delivered v @ later) \<and> mset (resolved v) \<subseteq># mset (delivered v)
     \<and> (status v = Completed \<longrightarrow> outs (given v) = delivered v
         \<and> (waits \<longrightarrow> mset (resolved v) = mset (delivered v)))"

locale summing_service =
  fixes outs :: "u8 list option list \<Rightarrow> u8 list list" and waits :: bool
  assumes outs_append: "outs (vs @ vs') = outs vs @ outs vs'"
begin

lemma outs_nil: "outs [] = []"
  using outs_append [of "[]" "[]"] by simp

lemma service_ok_init: "service_init v \<Longrightarrow> service_ok outs waits v"
  by (simp add: service_init_def service_ok_def outs_nil)

lemma service_ok_step: "service_ok outs waits v \<Longrightarrow> service_step outs waits v v' \<Longrightarrow> service_ok outs waits v'"
  by (erule service_step.cases)
    (auto simp: service_ok_def outs_append intro: subset_mset.order_trans)

lemma services_ok_step:
  "list_all (service_ok outs waits) vs \<Longrightarrow> services_step outs waits vs vs' \<Longrightarrow>
   list_all (service_ok outs waits) vs'"
  by (erule services_step.cases)
    (auto simp: list_all_iff dest!: subsetD [OF set_update_subset_insert] intro: service_ok_step)

end

sublocale summing_service \<subseteq> services:
  invariant_machine "services_init n" "services_step outs waits" "list_all (service_ok outs waits)" for n
proof unfold_locales
  show "services_init n s \<Longrightarrow> list_all (service_ok outs waits) s" for s
    by (simp add: services_init_def list_all_iff service_ok_init)
qed (rule services_ok_step)

end
