(* ===== verification/Krafka_Refinement.thy ===== *)
theory Krafka_Refinement
  imports Krafka_System Summing_Service
begin

text \<open>
  The krafka processor implements the summing service that waits for its deliveries to resolve: forgetting the position of
  the consume loop, the channel, the window, the task and the counters, every step of the worker
  system is a step of one of the services, or none.
\<close>

section \<open>Abstraction\<close>

fun phase_status :: "phase \<Rightarrow> status" where
  "phase_status Finished = Completed"
| "phase_status (Crashed _) = Failed"
| "phase_status _ = Serving"

definition abs_worker :: "worker \<Rightarrow> service" where
  "abs_worker w =
     \<lparr>given = polled w, delivered = sent w, resolved = settled w, status = phase_status (phase w)\<rparr>"

definition abs_system :: "system \<Rightarrow> service list" where
  "abs_system s = map abs_worker (snd s)"

lemma phase_status_Serving [simp]:
  "phase_status p = Serving \<longleftrightarrow> p \<noteq> Finished \<and> \<not> is_crashed p"
  "phase_status p = Completed \<longleftrightarrow> p = Finished" "phase_status p = Failed \<longleftrightarrow> is_crashed p"
  by (cases p; simp)+

lemma abs_worker_simps [simp]:
  "given (abs_worker w) = polled w" "delivered (abs_worker w) = sent w"
  "resolved (abs_worker w) = settled w" "status (abs_worker w) = phase_status (phase w)"
  by (simp_all add: abs_worker_def)

section \<open>Simulation\<close>

text \<open>Steps of the consume loop: a poll with records takes them, a panic fails, the join completes.\<close>

lemma stutter: "abs_worker w' = abs_worker w \<Longrightarrow> (service_step outs waits)\<^sup>*\<^sup>* (abs_worker w) (abs_worker w')"
  by simp

lemma consume_simulation:
  assumes inv: "worker_inv pf w" and step: "consume_step pf ev (g, w) = Some (g', w')"
  shows "(service_step (outputs pf) True)\<^sup>*\<^sup>* (abs_worker w) (abs_worker w')"
proof -
  consider (fails) "\<not> is_crashed (phase w)" "phase w \<noteq> Finished" "abs_worker w' = (abs_worker w)\<lparr>status := Failed\<rparr>"
    | (takes) vs where "status (abs_worker w) = Serving"
        "abs_worker w' = (abs_worker w)\<lparr>given := given (abs_worker w) @ vs\<rparr>"
    | (joins) "phase w = Draining" "task w \<noteq> Task_running" "abs_worker w' = (abs_worker w)\<lparr>status := Completed\<rparr>"
    | (stays) "abs_worker w' = abs_worker w"
    using step
    by (cases "phase w"; cases ev)
      (auto simp: abs_worker_def check_counter_def poll_ok_def load_start_def cas_start_def next_record_def
        send_buf_def Let_def split: if_splits option.splits list.splits sum.splits)
  then show ?thesis
  proof cases
    case fails
    then show ?thesis using service_step.fail [of "abs_worker w"] by auto
  next
    case takes
    then show ?thesis using take_records [of "abs_worker w"] by auto
  next
    case joins
    have "outputs pf (polled w) = sent w" "mset (settled w) = mset (sent w)"
      using inv joins by (cases "task w"; auto simp: worker_inv_def worker_inv_defs)+
    then have "service_step (outputs pf) True (abs_worker w) (abs_worker w')"
      unfolding joins(3) using joins(1) by (intro service_step.complete) auto
    then show ?thesis by auto
  qed simp
qed

text \<open>Steps of the produce task: a receive delivers, a completion resolves.\<close>

lemma produce_simulation:
  assumes inv: "worker_inv pf w" and step: "produce_step ev (g, w) = Some (g', w')"
  shows "(service_step (outputs pf) True)\<^sup>*\<^sup>* (abs_worker w) (abs_worker w')"
proof -
  have run: "task w = Task_running" using step by (auto split: if_splits)
  then have live: "phase w \<noteq> Finished" using inv by (auto simp: worker_inv_def task_ok_def)
  consider (recv) buf bufs where "chan w = buf # bufs"
      "abs_worker w' = (abs_worker w)\<lparr>delivered := delivered (abs_worker w) @ [buf]\<rparr>"
    | (completes) i where "i < length (in_flight w)"
      "abs_worker w' = (abs_worker w)\<lparr>resolved := resolved (abs_worker w) @ [in_flight w ! i]\<rparr>"
    | (stays) "abs_worker w' = abs_worker w"
    using step
    by (cases ev)
      (auto simp: abs_worker_def recv_buf_def complete_send_def task_exit_def Let_def
        split: if_splits list.splits phase.splits)
  then show ?thesis
  proof cases
    case recv
    then obtain later where "outputs pf (polled w) = sent w @ buf # later"
      using inv by (auto simp: worker_inv_def pipeline_ok_def split: if_splits)
    with recv live have "service_step (outputs pf) True (abs_worker w) (abs_worker w')"
      using service_step.deliver [of "abs_worker w" "outputs pf" buf later True] by simp
    then show ?thesis by auto
  next
    case completes
    have "mset (sent w) = mset (settled w) + mset (in_flight w)"
      using inv run by (simp add: worker_inv_def sends_ok_def)
    then have "mset (settled w @ [in_flight w ! i]) \<subseteq># mset (sent w)"
      using completes(1) by simp
    with completes live have "service_step (outputs pf) True (abs_worker w) (abs_worker w')"
      using service_step.resolve [of "abs_worker w" "in_flight w ! i" "outputs pf" True] by simp
    then show ?thesis by auto
  qed simp
qed

lemma worker_simulation:
  "worker_inv pf w \<Longrightarrow> worker_step pf ev (g, w) = Some (g', w') \<Longrightarrow>
   (service_step (outputs pf) True)\<^sup>*\<^sup>* (abs_worker w) (abs_worker w')"
  by (cases ev) (auto intro: consume_simulation produce_simulation
      simp del: consume_step.simps produce_step.simps)

lemma system_simulation:
  assumes "system_inv pf s" "system_step pf s s'"
  shows "(services_step (outputs pf) True)\<^sup>*\<^sup>* (abs_system s) (abs_system s')"
  using assms(2)
proof cases
  case (worker_moves i ws ev g g' w')
  then have "worker_inv pf (ws ! i)"
    using assms(1) by (simp add: system_inv_def list_all_length)
  from services_run [OF worker_simulation [OF this worker_moves(4)], of i "map abs_worker ws"] worker_moves
  show ?thesis by (simp add: abs_system_def map_update)
qed

lemma abs_spawn_worker: "service_init (abs_worker (spawn_worker su i))"
  by (cases su i rule: spawn_worker_cases) (auto simp: service_init_def worker_init_def)

lemma abs_system_init: "system_init su n s \<Longrightarrow> services_init n (abs_system s)"
  by (simp add: system_init_def services_init_def abs_system_def spawn_workers_def list_all_iff
      abs_spawn_worker)

interpretation krafka_service: summing_service "outputs pf" True for pf
  by unfold_locales (rule outputs_append)

interpretation krafka_refines: refinement "system_init su n" "system_step pf" "system_inv pf"
    abs_system "services_init n" "services_step (outputs pf) True"
  for su n pf
  by unfold_locales (auto intro: abs_system_init system_simulation)

section \<open>Properties\<close>

text \<open>
  C5: The krafka worker system refines the summing service that waits until its deliveries are resolved: its steps are
  runs of the service, which may be empty, so that what the service guarantees, outputs in order, nothing
  unowed delivered or resolved, nothing owed at completion, holds of every reachable state.
\<close>

theorem krafka_implements_service:
  assumes "reachable (system_init su n) (system_step pf) s"
  shows "reachable (services_init n) (services_step (outputs pf) True) (abs_system s)
    \<and> list_all (service_ok (outputs pf) True) (abs_system s)
    \<and> (system_step pf s s' \<longrightarrow> (services_step (outputs pf) True)\<^sup>*\<^sup>* (abs_system s) (abs_system s'))"
  using krafka_refines.abs_reachable [OF assms]
    krafka_service.services.reachable_inv [OF krafka_refines.abs_reachable [OF assms]]
    system_simulation [OF krafka_system.reachable_inv [OF assms]] by blast

theorem krafka_implements_service_witness:
  "reachable (services_init 1) (services_step (outputs Debug) True) (abs_system (sample 18))
   \<and> list_all (service_ok (outputs Debug) True) (abs_system (sample 18))"
  using krafka_implements_service [OF sample_reachable [of 18]] by simp

end
