(* ===== verification/Rdkafka_Varint.thy ===== *)
theory Rdkafka_Varint
  imports Krafka_Varint
begin

text \<open>
  The zig-zag LEB128 codec of \<open>stream-test-rust\<close>: \<open>read_varint\<close> and \<open>write_varint\<close> of
  \<open>src/bin/processor.rs\<close>, repeated in \<open>producer.rs\<close> and \<open>consumer.rs\<close>. It differs from the
  codec of \<open>stream-test-krafka\<close> in two places: the reader has no bound on the shift, and the
  writer keeps the zig-zag value as a signed \<open>i64\<close>, so its comparison and its shift are signed.
  The names carry the suffix \<open>_rd\<close>.
\<close>

section \<open>The code\<close>

fun read_loop_rd :: "profile \<Rightarrow> u64 \<Rightarrow> nat \<Rightarrow> u8 list \<Rightarrow> (u64 \<times> u8 list) res" where
  "read_loop_rd pf val shift [] = Panic Index_out_of_bounds"
| "read_loop_rd pf val shift (b # reader) =
     and_then (shl_u64 pf (ucast (b AND 0x7F)) shift) (\<lambda>x.
       let val = val OR x
       in if b AND 0x80 = 0 then Ok (val, reader)
          else read_loop_rd pf val (shift + 7) reader)"

definition read_varint_rd :: "profile \<Rightarrow> u8 list \<Rightarrow> (i64 \<times> u8 list) res" where
  "read_varint_rd pf reader =
     and_then (read_loop_rd pf 0 0 reader) (\<lambda>(val, reader). Ok (unzigzag val, reader))"

lemma sint_signed_drop_bit_7: "sint (signed_drop_bit 7 (v :: i64)) = sint v div 128"
  by (simp add: sint_signed_drop_bit_eq drop_bit_eq_div)

function write_loop_rd :: "u8 list \<Rightarrow> i64 \<Rightarrow> u8 list" where
  "write_loop_rd buf val =
     (if 0x80 \<le> sint val
      then write_loop_rd (buf @ [ucast val OR 0x80]) (signed_drop_bit 7 val)
      else buf @ [ucast val])"
  by pat_completeness auto
termination
  by (relation "measure (\<lambda>(buf, val). nat (sint val))") (auto simp: sint_signed_drop_bit_7)

definition write_varint_rd :: "u8 list \<Rightarrow> i64 \<Rightarrow> u8 list" where
  "write_varint_rd buf n = write_loop_rd buf (push_bit 1 n XOR signed_drop_bit 63 n)"

declare write_loop_rd.simps [simp del]

section \<open>The writer agrees with the unsigned one below $2^{62}$\<close>

definition small_i64 :: "i64 \<Rightarrow> bool" where
  "small_i64 n \<longleftrightarrow> - (2 ^ 62) \<le> sint n \<and> sint n < 2 ^ 62"

lemma write_varint_rd_zigzag: "write_varint_rd buf n = write_loop_rd buf (zigzag n)"
  by (simp only: write_varint_rd_def zigzag_def)

lemma small_i64_zigzag: "small_i64 n \<longleftrightarrow> 0 \<le> sint (zigzag n)"
proof (cases "0 \<le> sint n")
  case True
  then have "uint (zigzag n) = 2 * sint n" by (simp add: uint_zigzag)
  with True show ?thesis unfolding small_i64_def sint_nonneg_iff [of "zigzag n"] by auto
next
  case False
  then have "uint (zigzag n) = - 2 * sint n - 1" by (simp add: uint_zigzag)
  with False show ?thesis unfolding small_i64_def sint_nonneg_iff [of "zigzag n"] by auto
qed

lemma write_loop_rd_small: "sint v < 0x80 \<Longrightarrow> write_loop_rd buf v = buf @ [ucast v]"
  by (subst write_loop_rd.simps) simp

lemma write_loop_rd_large:
  "0x80 \<le> sint v \<Longrightarrow>
   write_loop_rd buf v = write_loop_rd (buf @ [ucast v OR 0x80]) (signed_drop_bit 7 v)"
  by (subst write_loop_rd.simps) simp

lemma signed_drop_bit_nonneg:
  "0 \<le> sint (v :: i64) \<Longrightarrow> signed_drop_bit 7 v = drop_bit 7 v"
proof (rule bit_word_eqI)
  fix k assume "0 \<le> sint v" "k < LENGTH(64)"
  then have "\<not> bit v 63" by (simp add: bit63_sint)
  then show "bit (signed_drop_bit 7 v) k = bit (drop_bit 7 v) k"
    by (auto simp: bit_signed_drop_bit_iff bit_drop_bit_eq bit_beyond_64)
qed

lemma write_loop_rd_eq: "0 \<le> sint v \<Longrightarrow> write_loop_rd buf v = write_loop buf v"
proof (induction v arbitrary: buf rule: group_induct)
  case (small v)
  then have "sint v < 0x80" by (simp add: sint_nonneg_eq word_less_def)
  with small(1) show ?case by (simp add: write_loop_small write_loop_rd_small)
next
  case (large v)
  then have ge: "0x80 \<le> sint v" by (simp add: sint_nonneg_eq word_le_def)
  have "0 \<le> sint (drop_bit 7 v)"
    using large.prems sint_signed_drop_bit_7 [of v] by (simp add: signed_drop_bit_nonneg)
  from large.IH [OF this] show ?case
    using large.prems by (simp add: write_loop_rd_large [OF ge] write_loop_large [OF large.hyps]
        signed_drop_bit_nonneg)
qed

lemma write_varint_rd_eq: "small_i64 n \<Longrightarrow> write_varint_rd buf n = write_varint buf n"
  by (simp add: write_varint_rd_zigzag write_varint_def small_i64_zigzag write_loop_rd_eq)

lemma write_varint_rd_large:
  "\<not> small_i64 n \<Longrightarrow> write_varint_rd buf n = buf @ [ucast (zigzag n)]"
  by (subst write_varint_rd_zigzag, subst write_loop_rd.simps) (simp add: small_i64_zigzag)

lemma write_varint_rd_append: "write_varint_rd buf n = buf @ write_varint_rd [] n"
  by (cases "small_i64 n")
    (simp_all add: write_varint_rd_eq write_varint_rd_large write_varint_append [of buf])

section \<open>The reader agrees with the bounded one on terminated input\<close>

lemma read_loop_rd_eq:
  assumes "s + 7 * k < 64" "k < length bs" "\<not> bit (bs ! k) 7"
  shows "read_loop_rd pf acc s bs = read_loop acc s bs"
  using assms
proof (induction bs arbitrary: acc s k)
  case Nil
  then show ?case by simp
next
  case (Cons b bs)
  have shl: "shl_u64 pf (ucast (b AND 0x7F)) s = Ok (push_bit s (ucast (b AND 0x7F)))"
    using Cons.prems(1) by (intro shl_u64_small) simp
  show ?case
  proof (cases "bit b 7")
    case False
    then show ?thesis by (simp add: shl and_0x80_eq_0)
  next
    case True
    with Cons.prems(3) obtain j where k: "k = Suc j" by (cases k) auto
    have "read_loop_rd pf acc' (s + 7) bs = read_loop acc' (s + 7) bs" for acc'
      using Cons.prems k by (intro Cons.IH [of "s + 7" j]) auto
    moreover have "s + 7 < 64" using Cons.prems(1) k by simp
    ultimately show ?thesis using True by (simp add: shl and_0x80_eq_0 Let_def)
  qed
qed

lemma read_varint_rd_eq:
  "k < 10 \<Longrightarrow> k < length bs \<Longrightarrow> \<not> bit (bs ! k) 7 \<Longrightarrow> read_varint_rd pf bs = read_varint bs"
  by (simp add: read_varint_rd_def read_varint_def read_loop_rd_eq [of 0 k])

lemma read_loop_rd_shortens:
  "read_loop_rd pf acc s bs = Ok (v, rest) \<Longrightarrow> length rest < length bs"
proof (induction bs arbitrary: acc s)
  case Nil
  then show ?case by simp
next
  case (Cons b bs)
  then show ?case by (fastforce simp: Let_def split: if_splits)
qed

lemma read_varint_rd_shortens:
  "read_varint_rd pf bs = Ok (n, rest) \<Longrightarrow> length rest < length bs"
  by (auto simp: read_varint_rd_def dest!: read_loop_rd_shortens)

lemma read_loop_rd_all_continue:
  "\<forall>b \<in> set bs. bit b 7 \<Longrightarrow> s + 7 * length bs \<le> 70 \<Longrightarrow>
   read_loop_rd pf acc s bs = Panic Index_out_of_bounds"
proof (induction bs arbitrary: acc s)
  case Nil
  then show ?case by simp
next
  case (Cons b bs)
  then show ?case by (simp add: shl_u64_small Let_def and_0x80_eq_0)
qed

section \<open>Round trip\<close>

lemma write_loop_last: "\<not> bit (last (write_loop [] v)) 7"
proof (induction v rule: group_induct)
  case (small v)
  then show ?case using final_byte(1) [OF small] by (simp add: write_loop_small and_0x80_eq_0)
next
  case (large v)
  then show ?case by (simp add: write_loop_nil_large write_loop_nonempty)
qed

lemma write_varint_terminator:
  obtains k where "k < 10" "k < length (write_varint [] n)" "\<not> bit (write_varint [] n ! k) 7"
proof
  let ?w = "write_varint [] n"
  show "length ?w - 1 < 10" "length ?w - 1 < length ?w"
    using write_varint_length [of n] by auto
  show "\<not> bit (?w ! (length ?w - 1)) 7"
    using write_loop_last [of "zigzag n"] write_loop_nonempty [of "zigzag n"]
    by (simp add: write_varint_def last_conv_nth)
qed

lemma read_varint_rd_write_varint:
  "read_varint_rd pf (write_varint [] n @ rest) = Ok (n, rest)"
proof -
  obtain k where "k < 10" "k < length (write_varint [] n)" "\<not> bit (write_varint [] n ! k) 7"
    by (rule write_varint_terminator)
  then have "read_varint_rd pf (write_varint [] n @ rest) = read_varint (write_varint [] n @ rest)"
    by (intro read_varint_rd_eq [of k]) (simp_all add: nth_append)
  then show ?thesis by (simp add: read_varint_write_varint)
qed

lemma read_varint_rd_write_varint_rd:
  "small_i64 n \<Longrightarrow> read_varint_rd pf (write_varint_rd [] n @ rest) = Ok (n, rest)"
  by (simp add: write_varint_rd_eq read_varint_rd_write_varint)

lemma read_varint_rd_truncated:
  assumes "small_i64 n" "k < length (write_varint_rd [] n)"
  shows "read_varint_rd pf (take k (write_varint_rd [] n)) = Panic Index_out_of_bounds"
proof -
  have "k < length (write_loop [] (zigzag n))"
    using assms by (simp add: write_varint_rd_eq write_varint_def)
  then have "\<forall>b \<in> set (take k (write_varint [] n)). bit b 7"
    by (auto simp: write_varint_def intro: write_loop_prefix)
  moreover have "0 + 7 * length (take k (write_varint [] n)) \<le> 70"
    using write_varint_length [of n] by (simp add: min.coboundedI1)
  ultimately show ?thesis
    using assms(1) by (simp add: read_varint_rd_def read_loop_rd_all_continue write_varint_rd_eq)
qed

lemma zigzag_byte_small: "zigzag n = ucast (b :: u8) \<Longrightarrow> small_i64 n"
proof -
  assume eq: "zigzag n = ucast b"
  have "uint (zigzag n) < 2 ^ 8"
    using uint_lt2p [of b] by (simp add: eq unsigned_ucast_eq take_bit_int_eq_self)
  then show ?thesis by (simp add: small_i64_zigzag sint_nonneg_iff)
qed

lemma read_write_varint_rd_large:
  assumes "\<not> small_i64 n"
  shows "read_varint_rd pf (write_varint_rd [] n) \<noteq> Ok (n, [])"
proof
  let ?b = "ucast (zigzag n) :: u8"
  assume "read_varint_rd pf (write_varint_rd [] n) = Ok (n, [])"
  then have "unzigzag (ucast (?b AND 0x7F)) = n"
    using assms by (auto simp: write_varint_rd_large read_varint_rd_def shl_u64_small Let_def split: if_splits)
  then have "zigzag n = ucast (?b AND 0x7F)"
    using zigzag_unzigzag [of "ucast (?b AND 0x7F)"] by (simp only:)
  with assms show False using zigzag_byte_small by blast
qed

section \<open>Overlong input\<close>

lemma read_loop_rd_overflow:
  "\<forall>b \<in> set cs. bit b 7 \<Longrightarrow> 64 \<le> s + 7 * length cs \<Longrightarrow>
   read_loop_rd Debug acc s (cs @ b # rest) = Panic Shl_overflow"
proof (induction cs arbitrary: acc s)
  case Nil
  then show ?case by (simp add: shl_u64_def)
next
  case (Cons c cs)
  then have c: "c AND 0x80 \<noteq> 0" by (simp add: continues_iff)
  have "read_loop_rd Debug acc (s + 7) (cs @ b # rest) = Panic Shl_overflow" for acc
    using Cons.prems by (intro Cons.IH) auto
  with c show ?case by (cases "64 \<le> s") (simp_all add: shl_u64_def Let_def)
qed

lemma read_overlong:
  assumes "length cs = 10" "\<forall>b \<in> set cs. bit b 7"
  shows "\<exists>n. read_varint (cs @ rest) = Ok (n, rest)"
    and "read_varint_rd pf cs = Panic Index_out_of_bounds"
    and "read_varint_rd Debug (cs @ b # rest) = Panic Shl_overflow"
proof -
  from assms obtain v where "read_loop 0 0 (cs @ rest) = Ok (v, rest)"
    using read_loop_ten [of cs 0 0 rest] by auto
  then show "\<exists>n. read_varint (cs @ rest) = Ok (n, rest)" by (simp add: read_varint_def)
  show "read_varint_rd pf cs = Panic Index_out_of_bounds"
    using assms by (simp add: read_varint_rd_def read_loop_rd_all_continue)
  show "read_varint_rd Debug (cs @ b # rest) = Panic Shl_overflow"
    using assms by (simp add: read_varint_rd_def read_loop_rd_overflow)
qed

text \<open>What the unbounded reader accepts in a debug build, the bounded one reads the same way.\<close>

lemma read_loop_rd_Debug:
  "read_loop_rd Debug acc s bs = Ok r \<Longrightarrow> read_loop acc s bs = Ok r"
proof (induction bs arbitrary: acc s)
  case Nil
  then show ?case by simp
next
  case (Cons b bs)
  then have s: "s < 64" by (auto simp: shl_u64_def split: if_splits)
  let ?acc = "acc OR push_bit s (ucast (b AND 0x7F))"
  show ?case
  proof (cases "b AND 0x80 = 0")
    case True
    with Cons.prems s show ?thesis by (simp add: shl_u64_def Let_def)
  next
    case False
    with Cons.prems s have rec: "read_loop_rd Debug ?acc (s + 7) bs = Ok r"
      by (simp add: shl_u64_def Let_def)
    then have "s + 7 < 64" by (cases bs) (auto simp: shl_u64_def split: if_splits)
    with Cons.IH [OF rec] False show ?thesis by (simp add: read_loop_continue del: read_loop.simps)
  qed
qed

lemma read_varint_rd_Debug: "read_varint_rd Debug bs = Ok r \<Longrightarrow> read_varint bs = Ok r"
  by (auto simp: read_varint_rd_def read_varint_def dest!: read_loop_rd_Debug split: prod.splits)

section \<open>Properties\<close>

text \<open>
  C9: In \<open>stream-test-rust\<close> a value survives the trip exactly if it lies in [- 2^62, 2^62): the writer
  shifts a signed value, so a zig-zag code with its top bit set ends the loop after one byte.
\<close>

theorem varint_rd_roundtrip:
  "read_varint_rd pf (write_varint_rd [] n) = Ok (n, []) \<longleftrightarrow> - (2 ^ 62) \<le> sint n \<and> sint n < 2 ^ 62"
  using read_varint_rd_write_varint_rd [of n pf "[]"] read_write_varint_rd_large [where n = n and pf = pf]
  unfolding small_i64_def by (metis append_Nil2)

text \<open>
  C35: On ten continuation bytes the two readers part: the krafka one stops at the tenth, the
  unbounded one goes on and panics, for the missing byte or, in a debug build, for the shift by 70.
\<close>

theorem readers_differ_overlong:
  assumes "length cs = 10" "list_all (\<lambda>b. bit b 7) cs"
  shows "(\<exists>n. read_varint (cs @ rest) = Ok (n, rest))
    \<and> read_varint_rd pf cs = Panic Index_out_of_bounds
    \<and> read_varint_rd Debug (cs @ b # rest) = Panic Shl_overflow"
  using read_overlong [where cs = cs] assms by (simp add: list_all_iff)

theorem readers_differ_overlong_witness:
  "(\<exists>n. read_varint (replicate 10 0x80 @ [1]) = Ok (n, [1]))
   \<and> read_varint_rd Release (replicate 10 0x80) = Panic Index_out_of_bounds
   \<and> read_varint_rd Debug (replicate 10 0x80 @ 5 # [1]) = Panic Shl_overflow"
  by (rule readers_differ_overlong) code_simp+

text \<open>
  Otherwise they agree: what the unbounded reader accepts in a debug build, the bounded one reads
  to the same value with the same rest, and on input whose value ends within ten bytes the two are equal
  in both builds.
\<close>

lemma readers_agree:
  assumes "read_varint_rd Debug bs = Ok r" "k < 10" "k < length cs" "\<not> bit (cs ! k) 7"
  shows "read_varint bs = Ok r \<and> read_varint_rd pf cs = read_varint cs"
  using read_varint_rd_Debug [OF assms(1)] read_varint_rd_eq [OF assms(2-4)] by simp

lemma readers_agree_witness:
  "read_varint [0x96, 0x01, 9] = Ok (75, [9]) \<and> read_varint_rd Release [0x80, 0x01] = read_varint [0x80, 0x01]"
  by (rule readers_agree [where k = 1]) code_simp+

end
