(* ===== verification/Rdkafka_Sum.thy ===== *)
theory Rdkafka_Sum
  imports Rdkafka_Varint Krafka_Sum
begin

text \<open>
  What the rdkafka processor does with the bytes of one message
  (\<open>stream-test-rust/src/bin/processor.rs\<close>): the block loop that also accepts negative counts,
  as Avro writes them (a negative count is followed by the size of the block in bytes, which
  the code reads and drops), and the interpretation of the contracts on this code.
\<close>

section \<open>The code\<close>

lemma sum_values_read_rd_shortens:
  "sum_values (read_varint_rd pf) pf k s bs = Ok (t, rest) \<Longrightarrow> length rest \<le> length bs"
  by (rule sum_values_shortens [of "read_varint_rd pf"]) (rule read_varint_rd_shortens)

text \<open>\<open>if count < 0 { let _ = read_varint(&mut payload); }\<close>\<close>

definition skip_block_size :: "profile \<Rightarrow> i64 \<Rightarrow> u8 list \<Rightarrow> u8 list res" where
  "skip_block_size pf cnt payload =
     (if sint cnt < 0
      then and_then (read_varint_rd pf payload) (\<lambda>(_, payload). Ok payload)
      else Ok payload)"

lemma skip_block_size_le: "skip_block_size pf c bs = Ok rest \<Longrightarrow> length rest \<le> length bs"
  by (auto simp: skip_block_size_def dest!: read_varint_rd_shortens split: if_splits)

function sum_blocks_rd :: "profile \<Rightarrow> i64 \<Rightarrow> i64 \<Rightarrow> u8 list \<Rightarrow> i64 res" where
  "sum_blocks_rd pf cnt s payload =
     (if cnt = 0 then Ok s
      else and_then (abs_i64 pf cnt) (\<lambda>abs_cnt.
        and_then (skip_block_size pf cnt payload) (\<lambda>payload.
          and_then (sum_values (read_varint_rd pf) pf (nat (sint abs_cnt)) s payload)
            (\<lambda>(s, payload).
              and_then (read_varint_rd pf payload) (\<lambda>(cnt, payload).
                sum_blocks_rd pf cnt s payload)))))"
  by pat_completeness auto
termination
  by (relation "measure (\<lambda>(pf, cnt, s, payload). length payload)")
    (fastforce dest: sum_values_read_rd_shortens read_varint_rd_shortens skip_block_size_le)+

declare sum_blocks_rd.simps [simp del]

definition sum_payload_rd :: "profile \<Rightarrow> u8 list \<Rightarrow> i64 res" where
  "sum_payload_rd pf payload =
     and_then (read_varint_rd pf payload) (\<lambda>(cnt, payload). sum_blocks_rd pf cnt 0 payload)"

section \<open>The contracts hold\<close>

interpretation rd_codec: varint_codec "read_varint_rd pf" write_varint_rd small_i64
  for pf
  by unfold_locales
    (rule write_varint_rd_append, erule read_varint_rd_write_varint_rd,
      erule read_varint_rd_shortens, erule (1) read_varint_rd_truncated)

lemma sum_blocks_rd_zero: "sum_blocks_rd pf 0 s bs = Ok s"
  by (simp add: sum_blocks_rd.simps [of pf 0])

lemma abs_i64_pos: "0 \<le> sint c \<Longrightarrow> abs_i64 pf c = Ok c"
  by (simp add: abs_i64_def)

lemma sum_blocks_rd_pos:
  "0 < sint c \<Longrightarrow> sum_blocks_rd pf c s bs =
     and_then (sum_values (read_varint_rd pf) pf (nat (sint c)) s bs) (\<lambda>(s, bs).
       and_then (read_varint_rd pf bs) (\<lambda>(c, bs). sum_blocks_rd pf c s bs))"
  by (subst sum_blocks_rd.simps) (auto simp: abs_i64_pos skip_block_size_def)

interpretation rd: array_decoder "read_varint_rd pf" write_varint_rd small_i64 pf "sum_blocks_rd pf"
  for pf
  by unfold_locales (auto intro: sum_blocks_rd_zero sum_blocks_rd_pos simp: small_i64_def)

section \<open>Sums of records\<close>

lemma sum_payload_rd_blocks:
  "list_all (block_ok small_i64) xss \<Longrightarrow>
   sum_payload_rd pf (write_blocks write_varint_rd xss @ junk) = add_all pf 0 (concat xss)"
  unfolding sum_payload_rd_def by (rule rd.loop_blocks)

lemma drawn_small: "drawn xs \<Longrightarrow> list_all small_i64 xs"
  by (force simp: drawn_def small_i64_def list_all_iff)

lemma sum_payload_rd_drawn:
  "drawn xs \<Longrightarrow> sum_payload_rd pf (write_record write_varint_rd xs) = Ok (sum_list xs)"
  using sum_payload_rd_blocks [of "[xs]" pf "[]"]
  by (simp add: rd.write_record_blocks drawn_block_ok drawn_small add_all_drawn)

lemma sum_payload_rd_truncated:
  "block_ok small_i64 xs \<Longrightarrow> is_ok (add_all pf 0 xs) \<Longrightarrow>
   k < length (write_record write_varint_rd xs) \<Longrightarrow>
   sum_payload_rd pf (take k (write_record write_varint_rd xs)) = Panic Index_out_of_bounds"
  unfolding sum_payload_rd_def by (rule rd.loop_truncated)

section \<open>Blocks with a negative count\<close>

lemma sum_blocks_rd_negative:
  assumes "sint c < 0" "sint c \<noteq> - (2 ^ 63)"
  shows "sum_blocks_rd pf c s bs =
    and_then (read_varint_rd pf bs) (\<lambda>(_, bs). sum_blocks_rd pf (- c) s bs)"
proof -
  have neg: "sint (- c) = - sint c"
    using assms sint_bounds_i64 [of c] by (simp add: sint_word_ariths signed_take_bit_int_eq_self)
  with assms have "abs_i64 pf c = Ok (- c)" "0 < sint (- c)" by (simp_all add: abs_i64_def)
  with assms(1) sum_blocks_rd_pos [of "- c" pf s] show ?thesis
    by (subst sum_blocks_rd.simps)
      (cases "read_varint_rd pf bs"; auto simp: skip_block_size_def)
qed

text \<open>Avro's two forms of a block: a count, or a negative count and the size in bytes.\<close>

fun write_avro_blocks :: "(u8 list \<Rightarrow> i64 \<Rightarrow> u8 list) \<Rightarrow> (i64 option \<times> i64 list) list \<Rightarrow> u8 list" where
  "write_avro_blocks wr [] = wr [] 0"
| "write_avro_blocks wr ((None, xs) # blocks) =
     wr [] (of_nat (length xs)) @ concat (map (wr []) xs) @ write_avro_blocks wr blocks"
| "write_avro_blocks wr ((Some bsize, xs) # blocks) =
     wr [] (- of_nat (length xs)) @ wr [] bsize @ concat (map (wr []) xs) @ write_avro_blocks wr blocks"

definition avro_block_ok :: "i64 option \<times> i64 list \<Rightarrow> bool" where
  "avro_block_ok b \<longleftrightarrow> block_ok small_i64 (snd b) \<and> (case fst b of None \<Rightarrow> True | Some bsize \<Rightarrow> small_i64 bsize)"

lemma block_count_negative:
  assumes "block_ok P xs"
  shows "sint (- of_nat (length xs) :: i64) < 0" "sint (- of_nat (length xs) :: i64) \<noteq> - (2 ^ 63)"
    "small_i64 (- of_nat (length xs))"
proof -
  let ?c = "of_nat (length xs) :: i64"
  have "sint (- ?c) = - sint ?c"
    using block_count [OF assms] by (simp add: sint_word_ariths signed_take_bit_int_eq_self)
  with block_count [OF assms] show "sint (- ?c) < 0" "sint (- ?c) \<noteq> - (2 ^ 63)" "small_i64 (- ?c)"
    by (auto simp: small_i64_def)
qed

lemma sum_payload_rd_avro:
  "list_all avro_block_ok blocks \<Longrightarrow>
   and_then (read_varint_rd pf (write_avro_blocks write_varint_rd blocks @ junk))
     (\<lambda>(c, bs). sum_blocks_rd pf c s bs)
   = add_all pf s (concat (map snd blocks))"
proof (induction blocks arbitrary: s)
  case Nil
  then show ?case by (simp add: read_varint_rd_write_varint_rd small_i64_def sum_blocks_rd_zero)
next
  case (Cons b blocks)
  obtain bsize xs where b: "b = (bsize, xs)" by (cases b)
  with Cons.prems have ok: "block_ok small_i64 xs" and xs: "list_all small_i64 xs"
    and bsize: "\<And>k. bsize = Some k \<Longrightarrow> small_i64 k"
    by (auto simp: avro_block_ok_def block_ok_def)
  let ?c = "of_nat (length xs) :: i64"
    and ?rest = "concat (map (write_varint_rd []) xs) @ write_avro_blocks write_varint_rd blocks @ junk"
  have pos: "sum_blocks_rd pf ?c s ?rest = add_all pf s (concat (map snd (b # blocks)))"
  proof (cases "add_all pf s xs")
    case (Inl p)
    then show ?thesis
      by (simp add: b sum_blocks_rd_pos [OF block_count(1) [OF ok]] block_count(2) [OF ok]
          rd_codec.sum_values_written [OF xs] add_all_append)
  next
    case (Inr t)
    with Cons show ?thesis
      by (simp add: b sum_blocks_rd_pos [OF block_count(1) [OF ok]] block_count(2) [OF ok]
          rd_codec.sum_values_written [OF xs] add_all_append)
  qed
  show ?case
  proof (cases bsize)
    case None
    with pos rd.dom_count [OF ok] show ?thesis
      by (simp add: b read_varint_rd_write_varint_rd)
  next
    case (Some k)
    with pos bsize block_count_negative [OF ok] show ?thesis
      by (simp add: b read_varint_rd_write_varint_rd sum_blocks_rd_negative)
  qed
qed

section \<open>Properties\<close>

text \<open>
  C17: The rdkafka processor adds up Avro arrays in both of their forms: blocks with a count, and blocks
  with a negative count followed by a size in bytes, which it drops.
\<close>

theorem rdkafka_sums_avro_blocks:
  assumes "list_all avro_block_ok blocks"
  shows "sum_payload_rd pf (write_avro_blocks write_varint_rd blocks @ junk)
    = add_all pf 0 (concat (map snd blocks))"
  unfolding sum_payload_rd_def by (rule sum_payload_rd_avro [OF assms])

theorem rdkafka_sums_avro_blocks_witness:
  "sum_payload_rd Debug (write_avro_blocks write_varint_rd [(Some 3, [1, 100]), (None, [7])] @ [1, 2])
   = add_all Debug 0 [1, 100, 7]"
  using rdkafka_sums_avro_blocks [of "[(Some 3, [1, 100]), (None, [7])]" Debug "[1, 2]"]
  by (simp add: avro_block_ok_def block_ok_def small_i64_def)

text \<open>
  C18: On such a block with a size the two processors differ: the rdkafka one returns the sum of its
  values, the krafka one drops the negative count and takes the size for the count of the next block.
\<close>

theorem negative_counts_differ:
  assumes "block_ok small_i64 xs" "small_i64 bsize"
  shows "sum_payload_rd pf (write_avro_blocks write_varint_rd [(Some bsize, xs)]) = add_all pf 0 xs
    \<and> sum_payload pf (write_avro_blocks write_varint [(Some bsize, xs)])
      = sum_blocks pf bsize 0 (concat (map (write_varint []) xs) @ write_varint [] 0)"
proof -
  have "list_all avro_block_ok [(Some bsize, xs)]" using assms by (simp add: avro_block_ok_def)
  from sum_payload_rd_avro [OF this, of pf "[]" 0] block_count_negative(1) [OF assms(1)]
  show ?thesis
    by (simp add: sum_payload_rd_def sum_payload_def read_varint_write_varint sum_blocks_negative
        del: write_avro_blocks.simps(1))
       (simp add: read_varint_write_varint sum_blocks_negative)
qed

theorem negative_counts_differ_witness:
  "sum_payload_rd Debug (write_avro_blocks write_varint_rd [(Some 2, [100])]) = Ok 100
   \<and> sum_payload Debug (write_avro_blocks write_varint [(Some 2, [100])]) = Panic Index_out_of_bounds"
proof -
  have "sum_blocks Debug 2 0 (concat (map (write_varint []) [100]) @ write_varint [] 0)
      = Panic Index_out_of_bounds"
    by code_simp
  moreover have "add_all Debug 0 [100] = Ok 100" by code_simp
  ultimately show ?thesis
    using negative_counts_differ [of "[100]" 2 Debug]
    by (simp add: block_ok_def small_i64_def)
qed

end
