(* ===== verification/Rdkafka_Worker.thy ===== *)
theory Rdkafka_Worker
  imports Rdkafka_Sum Machine
begin

text \<open>
  Phase 2 of the rdkafka processor (\<open>stream-test-rust/src/bin/processor.rs\<close>): worker threads that
  poll, sum and send, and count the messages they have handled in a local counter that goes to
  \<open>PROCESSED_COUNTER\<close> in batches of 1000. Outcomes of the client library (what \<open>poll\<close> returns,
  whether \<open>send\<close> enqueues the record) are the arguments of the steps.
\<close>

section \<open>State\<close>

definition total_records_rd :: u64 where
  "total_records_rd = 50000000"

text \<open>\<open>PROCESSED_COUNTER\<close> and the shared \<open>start_instant\<close>, which only tells started from not started.\<close>

record globals_rd =
  processed_rd :: u64
  start_instant :: u64

definition globals_rd_init :: globals_rd where
  "globals_rd_init = \<lparr>processed_rd = 0, start_instant = 0\<rparr>"

record message =
  payload :: "u8 list option"
  msg_key :: "u8 list option"

datatype phase_rd =
    Rd_poll
  | Rd_start_load message
  | Rd_start_cas message
  | Rd_message message
  | Rd_flush
  | Rd_check
  | Rd_stopped
  | Rd_crashed panic

text \<open>
  \<open>polled_rd\<close> records the messages that the polls returned, when they return them, \<open>handled\<close> the calls of \<open>producer.send\<close> (key, payload, and whether the record was
  enqueued: the result is dropped, so a full queue loses the record), \<open>seen\<close> the payloads they
  came from.
\<close>

record worker_rd =
  phase_rd :: phase_rd
  local_rd :: u64
  polled_rd :: "message list"
  seen :: "u8 list list"
  handled :: "(u8 list \<times> u8 list \<times> bool) list"

definition worker_rd_init :: worker_rd where
  "worker_rd_init = \<lparr>phase_rd = Rd_poll, local_rd = 0, polled_rd = [], seen = [], handled = []\<rparr>"

text \<open>The start of a worker: two client creations and the subscription, each unwrapped.\<close>

definition start_worker_rd :: "bool \<Rightarrow> bool \<Rightarrow> bool \<Rightarrow> worker_rd res" where
  "start_worker_rd producer_ok consumer_ok subscribe_ok =
     and_then (expect ''unwrap'' producer_ok) (\<lambda>_.
     and_then (expect ''unwrap'' consumer_ok) (\<lambda>_.
     and_then (expect ''unwrap'' subscribe_ok) (\<lambda>_. Ok worker_rd_init)))"

section \<open>Steps\<close>

datatype event_rd =
    Poll_nothing
  | Poll_message message
  | Load_start_rd
  | Cas_start_rd
  | Handle bool
  | Flush
  | Check

text \<open>\<open>if start_time_ref.load(..) == 0 { compare_exchange(0, 1, ..) }\<close>\<close>

definition load_start_rd :: "globals_rd \<Rightarrow> message \<Rightarrow> worker_rd \<Rightarrow> worker_rd" where
  "load_start_rd g m w =
     w\<lparr>phase_rd := (if start_instant g = 0 then Rd_start_cas m else Rd_message m)\<rparr>"

definition cas_start_rd :: "globals_rd \<Rightarrow> globals_rd" where
  "cas_start_rd g = (if start_instant g = 0 then g\<lparr>start_instant := 1\<rparr> else g)"

text \<open>
  The payload of a message: sum, encode, send with the message's key (empty if it has none),
  count. A message without payload is not counted.
\<close>

definition handle_message :: "profile \<Rightarrow> bool \<Rightarrow> message \<Rightarrow> worker_rd \<Rightarrow> worker_rd" where
  "handle_message pf enqueued m w =
     (case payload m of
        None \<Rightarrow> w\<lparr>phase_rd := Rd_check\<rparr>
      | Some bytes \<Rightarrow>
          (case sum_payload_rd pf bytes of
             Inl p \<Rightarrow> w\<lparr>phase_rd := Rd_crashed p\<rparr>
           | Inr s \<Rightarrow>
               (let out_buf = write_varint_rd [] s;
                    key = (case msg_key m of None \<Rightarrow> [] | Some k \<Rightarrow> k);
                    n = local_rd w + 1
                in w\<lparr>seen := seen w @ [bytes], handled := handled w @ [(key, out_buf, enqueued)],
                     local_rd := n, phase_rd := (if 1000 \<le> n then Rd_flush else Rd_check)\<rparr>)))"

text \<open>
  \<open>if PROCESSED_COUNTER.fetch_add(local_counter, ..) + local_counter >= TOTAL_RECORDS { break; }\<close>,
  else the local counter starts again.
\<close>

definition flush_rd :: "profile \<Rightarrow> globals_rd \<times> worker_rd \<Rightarrow> globals_rd \<times> worker_rd" where
  "flush_rd pf gw = (case gw of (g, w) \<Rightarrow>
     let g' = g\<lparr>processed_rd := processed_rd g + local_rd w\<rparr>
     in case add_u64 pf (processed_rd g) (local_rd w) of
          Inl p \<Rightarrow> (g', w\<lparr>phase_rd := Rd_crashed p\<rparr>)
        | Inr t \<Rightarrow>
            (g', if total_records_rd \<le> t then w\<lparr>phase_rd := Rd_stopped\<rparr>
                 else w\<lparr>local_rd := 0, phase_rd := Rd_check\<rparr>))"

definition check_rd :: "globals_rd \<Rightarrow> worker_rd \<Rightarrow> worker_rd" where
  "check_rd g w =
     w\<lparr>phase_rd := (if total_records_rd \<le> processed_rd g then Rd_stopped else Rd_poll)\<rparr>"

fun worker_step_rd ::
  "profile \<Rightarrow> event_rd \<Rightarrow> globals_rd \<times> worker_rd \<Rightarrow> (globals_rd \<times> worker_rd) option"
where
  "worker_step_rd pf ev (g, w) =
     (case (phase_rd w, ev) of
        (Rd_poll, Poll_nothing) \<Rightarrow> Some (g, w\<lparr>phase_rd := Rd_check\<rparr>)
      | (Rd_poll, Poll_message m) \<Rightarrow> Some (g, w\<lparr>phase_rd := Rd_start_load m, polled_rd := polled_rd w @ [m]\<rparr>)
      | (Rd_start_load m, Load_start_rd) \<Rightarrow> Some (g, load_start_rd g m w)
      | (Rd_start_cas m, Cas_start_rd) \<Rightarrow> Some (cas_start_rd g, w\<lparr>phase_rd := Rd_message m\<rparr>)
      | (Rd_message m, Handle enqueued) \<Rightarrow> Some (g, handle_message pf enqueued m w)
      | (Rd_flush, Flush) \<Rightarrow> Some (flush_rd pf (g, w))
      | (Rd_check, Check) \<Rightarrow> Some (g, check_rd g w)
      | _ \<Rightarrow> None)"

type_synonym system_rd = "globals_rd \<times> worker_rd list"

definition spawn_worker_rd :: "bool \<times> bool \<times> bool \<Rightarrow> worker_rd" where
  "spawn_worker_rd su = (case su of (producer_ok, consumer_ok, subscribe_ok) \<Rightarrow>
     (case start_worker_rd producer_ok consumer_ok subscribe_ok of
        Inl p \<Rightarrow> worker_rd_init\<lparr>phase_rd := Rd_crashed p\<rparr>
      | Inr w \<Rightarrow> w))"

definition system_init_rd :: "(nat \<Rightarrow> bool \<times> bool \<times> bool) \<Rightarrow> nat \<Rightarrow> system_rd \<Rightarrow> bool" where
  "system_init_rd su num_workers s \<longleftrightarrow>
     s = (globals_rd_init, map (\<lambda>i. spawn_worker_rd (su i)) [0..<num_workers])"

definition system_step_rd_of :: "profile \<Rightarrow> nat \<times> event_rd \<Rightarrow> system_rd \<Rightarrow> system_rd option" where
  "system_step_rd_of pf lab s = (case lab of (i, ev) \<Rightarrow> case s of (g, ws) \<Rightarrow>
     (if i < length ws
      then case worker_step_rd pf ev (g, ws ! i) of
             None \<Rightarrow> None
           | Some (g', w') \<Rightarrow> Some (g', ws[i := w'])
      else None))"

inductive system_step_rd :: "profile \<Rightarrow> system_rd \<Rightarrow> system_rd \<Rightarrow> bool" for pf :: profile where
  worker_rd_moves: "i < length ws \<Longrightarrow> worker_step_rd pf ev (g, ws ! i) = Some (g', w') \<Longrightarrow>
     system_step_rd pf (g, ws) (g', ws[i := w'])"

inductive_cases system_step_rdE [elim]: "system_step_rd pf (g, ws) s'"

lemma system_step_rd_of_step: "system_step_rd_of pf lab s = Some s' \<Longrightarrow> system_step_rd pf s s'"
  by (cases lab; cases s)
    (auto simp: system_step_rd_of_def split: if_splits option.splits intro: worker_rd_moves)

section \<open>Accounting\<close>

definition flushed_rd :: "worker_rd \<Rightarrow> nat" where
  "flushed_rd w =
     (if phase_rd w = Rd_flush then length (handled w) - 1000
      else length (handled w) - length (handled w) mod 1000)"

definition total_handled :: "worker_rd list \<Rightarrow> nat" where
  "total_handled ws = (\<Sum>w \<leftarrow> ws. length (handled w))"

definition total_flushed_rd :: "worker_rd list \<Rightarrow> nat" where
  "total_flushed_rd ws = (\<Sum>w \<leftarrow> ws. flushed_rd w)"

text \<open>What was sent is the encoded sum of what was seen.\<close>

definition sends_sum_rd :: "profile \<Rightarrow> worker_rd \<Rightarrow> bool" where
  "sends_sum_rd pf w \<longleftrightarrow>
     list_all2 (\<lambda>bytes (key, buf, enq). \<exists>s. sum_payload_rd pf bytes = Ok s \<and> buf = write_varint_rd [] s)
       (seen w) (handled w)"

fun ended_rd :: "phase_rd \<Rightarrow> bool" where
  "ended_rd Rd_stopped = True"
| "ended_rd (Rd_crashed _) = True"
| "ended_rd _ = False"

definition worker_inv_rd :: "profile \<Rightarrow> worker_rd \<Rightarrow> bool" where
  "worker_inv_rd pf w \<longleftrightarrow>
     (if phase_rd w = Rd_flush
      then unat (local_rd w) = 1000 \<and> 1000 dvd length (handled w) \<and> handled w \<noteq> []
      else \<not> ended_rd (phase_rd w) \<longrightarrow> unat (local_rd w) = length (handled w) mod 1000)
     \<and> sends_sum_rd pf w"

lemma worker_inv_rd_init: "worker_inv_rd pf (spawn_worker_rd su)"
  by (auto simp: spawn_worker_rd_def start_worker_rd_def expect_def worker_rd_init_def
      worker_inv_rd_def sends_sum_rd_def split: prod.splits)

lemma spawn_worker_rd_handled: "handled (spawn_worker_rd su) = []" "phase_rd (spawn_worker_rd su) \<noteq> Rd_stopped"
  by (auto simp: spawn_worker_rd_def start_worker_rd_def expect_def worker_rd_init_def split: prod.splits)

lemma spawn_worker_rd_flushed: "flushed_rd (spawn_worker_rd su) = 0"
  by (auto simp: flushed_rd_def spawn_worker_rd_def start_worker_rd_def expect_def worker_rd_init_def
      split: prod.splits)

lemma local_rd_add_one: "unat (n :: u64) < 1000 \<Longrightarrow> unat (n + 1) = unat n + 1"
  by (simp add: unat_word_ariths)

text \<open>One message: the counter goes up with \<open>handled\<close>, and 1000 is reached exactly at a multiple.\<close>

lemma handle_message_inv:
  assumes inv: "worker_inv_rd pf w" and ph: "phase_rd w = Rd_message m"
  shows "worker_inv_rd pf (handle_message pf enq m w)
    \<and> flushed_rd (handle_message pf enq m w) = flushed_rd w
    \<and> phase_rd (handle_message pf enq m w) \<noteq> Rd_stopped"
proof (cases "payload m")
  case None
  with inv ph show ?thesis by (simp add: handle_message_def worker_inv_rd_def flushed_rd_def sends_sum_rd_def)
next
  case (Some bytes)
  let ?h = "length (handled w)"
  have loc: "unat (local_rd w) = ?h mod 1000" using inv ph by (simp add: worker_inv_rd_def)
  then have n: "unat (local_rd w + 1) = ?h mod 1000 + 1" by (simp add: local_rd_add_one)
  show ?thesis
  proof (cases "sum_payload_rd pf bytes")
    case (Inl p)
    with Some inv ph show ?thesis
      by (simp add: handle_message_def worker_inv_rd_def flushed_rd_def sends_sum_rd_def)
  next
    case (Inr s)
    show ?thesis
    proof (cases "?h mod 1000 = 999")
      case True
      then have "1000 dvd Suc ?h" "Suc ?h - 1000 = ?h - ?h mod 1000"
        by (simp_all add: dvd_eq_mod_eq_0 mod_Suc)
      with Some Inr inv ph n True show ?thesis
        by (simp add: handle_message_def worker_inv_rd_def flushed_rd_def sends_sum_rd_def Let_def
            word_le_nat_alt list_all2_appendI split: option.split)
    next
      case False
      moreover have "?h mod 1000 < 1000" by simp
      ultimately have "?h mod 1000 + 1 < 1000" by linarith
      moreover have "Suc ?h mod 1000 = ?h mod 1000 + 1" "Suc ?h - Suc ?h mod 1000 = ?h - ?h mod 1000"
        using False by (simp_all add: mod_Suc)
      ultimately show ?thesis
        using Some Inr inv ph n
        by (simp add: handle_message_def worker_inv_rd_def flushed_rd_def sends_sum_rd_def Let_def
            word_le_nat_alt list_all2_appendI split: option.split)
    qed
  qed
qed

lemma flush_rd_inv:
  assumes inv: "worker_inv_rd pf w" and ph: "phase_rd w = Rd_flush"
    and step: "flush_rd pf (g, w) = (g', w')"
  shows "worker_inv_rd pf w' \<and> flushed_rd w' = flushed_rd w + 1000
    \<and> processed_rd g' = processed_rd g + 1000
    \<and> (phase_rd w' = Rd_stopped \<longrightarrow> total_records_rd \<le> processed_rd g')"
proof -
  have loc: "local_rd w = 1000" and dvd: "1000 dvd length (handled w)" and ne: "handled w \<noteq> []"
    using inv ph by (auto simp: worker_inv_rd_def word_unat_eq_iff)
  have len: "1000 \<le> length (handled w)" using dvd ne by (auto intro: dvd_imp_le)
  have "handled w' = handled w" "seen w' = seen w" "phase_rd w' \<noteq> Rd_flush"
    "processed_rd g' = processed_rd g + 1000"
    "ended_rd (phase_rd w') \<or> unat (local_rd w') = 0"
    "phase_rd w' = Rd_stopped \<longrightarrow> total_records_rd \<le> processed_rd g'"
    using step loc by (auto simp: flush_rd_def Let_def add_u64_def split: sum.splits if_splits)
  with inv dvd len ph show ?thesis
    by (auto simp: worker_inv_rd_def flushed_rd_def sends_sum_rd_def)
qed

lemma worker_step_rd_inv:
  assumes inv: "worker_inv_rd pf w" and step: "worker_step_rd pf ev (g, w) = Some (g', w')"
  shows "worker_inv_rd pf w'
    \<and> processed_rd g' + of_nat (flushed_rd w) = processed_rd g + of_nat (flushed_rd w')
    \<and> flushed_rd w \<le> flushed_rd w'
    \<and> (phase_rd w' = Rd_stopped \<longrightarrow> total_records_rd \<le> processed_rd g')"
proof -
  consider (handle) m enq where "phase_rd w = Rd_message m" "ev = Handle enq"
    | (flush) "phase_rd w = Rd_flush" "ev = Flush"
    | (other) "(\<forall>m. phase_rd w \<noteq> Rd_message m) \<and> phase_rd w \<noteq> Rd_flush"
    using step by (cases "phase_rd w"; cases ev) auto
  then show ?thesis
  proof cases
    case handle
    with step handle_message_inv [OF inv handle(1), of enq] show ?thesis by auto
  next
    case flush
    with step flush_rd_inv [OF inv flush(1), of g g' w'] show ?thesis by auto
  next
    case other
    with step inv show ?thesis
      by (cases "phase_rd w"; cases ev)
        (auto simp: worker_inv_rd_def flushed_rd_def sends_sum_rd_def load_start_rd_def
          cas_start_rd_def check_rd_def split: if_splits)
  qed
qed

lemma flushed_rd_le: "flushed_rd w \<le> length (handled w)"
  by (simp add: flushed_rd_def)

lemma flushed_rd_uneven: "worker_inv_rd pf w \<Longrightarrow> length (handled w) mod 1000 \<noteq> 0 \<Longrightarrow> flushed_rd w < length (handled w)"
  by (auto simp: flushed_rd_def worker_inv_rd_def dvd_eq_mod_eq_0)

definition system_inv_rd :: "profile \<Rightarrow> system_rd \<Rightarrow> bool" where
  "system_inv_rd pf s \<longleftrightarrow>
     list_all (worker_inv_rd pf) (snd s)
     \<and> processed_rd (fst s) = of_nat (total_flushed_rd (snd s))
     \<and> ((\<exists>w \<in> set (snd s). phase_rd w = Rd_stopped) \<longrightarrow>
          unat total_records_rd \<le> total_flushed_rd (snd s))"

lemma system_inv_rd_init: "system_init_rd su n s \<Longrightarrow> system_inv_rd pf s"
  by (auto simp: system_init_rd_def system_inv_rd_def list_all_iff worker_inv_rd_init
      total_flushed_rd_def comp_def spawn_worker_rd_flushed spawn_worker_rd_handled globals_rd_init_def)

lemma unat_of_nat_le: "unat (of_nat n :: u64) \<le> n"
  by (simp add: unat_of_nat)

lemma system_inv_rd_step:
  assumes "system_inv_rd pf s" "system_step_rd pf s s'"
  shows "system_inv_rd pf s'"
  using assms(2)
proof cases
  case (worker_rd_moves i ws ev g g' w')
  note inv = assms(1) [unfolded system_inv_rd_def worker_rd_moves(1) fst_conv snd_conv]
  have w: "worker_inv_rd pf (ws ! i)" using inv worker_rd_moves(3) by (simp add: list_all_length)
  note w' = worker_step_rd_inv [OF w worker_rd_moves(4)]
  let ?ws = "ws[i := w']"
  have all: "list_all (worker_inv_rd pf) ?ws"
    using inv w' by (auto simp: list_all_iff dest!: subsetD [OF set_update_subset_insert])
  have tot: "total_flushed_rd ?ws + flushed_rd (ws ! i) = total_flushed_rd ws + flushed_rd w'"
    unfolding total_flushed_rd_def by (rule sum_list_nat_update [OF worker_rd_moves(3)])
  then have "of_nat (total_flushed_rd ?ws) + of_nat (flushed_rd (ws ! i))
      = (of_nat (total_flushed_rd ws) + of_nat (flushed_rd w') :: u64)"
    by (simp flip: of_nat_add)
  with w' inv have proc: "processed_rd g' = of_nat (total_flushed_rd ?ws)"
    by (metis add_right_cancel)
  have "unat total_records_rd \<le> total_flushed_rd ?ws"
    if "v \<in> set ?ws" "phase_rd v = Rd_stopped" for v
  proof (cases "v = w'")
    case True
    with that(2) w' have "unat total_records_rd \<le> unat (processed_rd g')"
      by (simp add: word_le_nat_alt)
    with proc unat_of_nat_le show ?thesis by (metis order_trans)
  next
    case False
    with that inv have "unat total_records_rd \<le> total_flushed_rd ws"
      by (auto dest!: subsetD [OF set_update_subset_insert])
    with tot w' show ?thesis by linarith
  qed
  with all proc show ?thesis by (auto simp: system_inv_rd_def worker_rd_moves(2))
qed

interpretation rdkafka_system:
  invariant_machine "system_init_rd su n" "system_step_rd pf" "system_inv_rd pf"
  for su n pf
  by unfold_locales (auto intro: system_inv_rd_init system_inv_rd_step)

lemma total_flushed_uneven:
  assumes "list_all (worker_inv_rd pf) ws" "w \<in> set ws" "length (handled w) mod 1000 \<noteq> 0"
  shows "total_flushed_rd ws < total_handled ws"
  unfolding total_flushed_rd_def total_handled_def
  using assms
proof (induction ws)
  case Nil
  then show ?case by simp
next
  case (Cons v vs)
  have le: "(\<Sum>w \<leftarrow> vs. flushed_rd w) \<le> (\<Sum>w \<leftarrow> vs. length (handled w))"
    by (rule sum_list_mono) (rule flushed_rd_le)
  show ?case
  proof (cases "w = v")
    case True
    with Cons.prems flushed_rd_uneven [of pf v] le show ?thesis by simp
  next
    case False
    with Cons flushed_rd_le [of v] show ?thesis by (simp add: add_le_less_mono)
  qed
qed

section \<open>From polls to sends\<close>

text \<open>
  The payloads of the messages polled are those seen, then the one in hand; a crash leaves out at most the
  one that cannot be decoded.
\<close>

fun pending_rd :: "phase_rd \<Rightarrow> message list" where
  "pending_rd (Rd_start_load m) = [m]"
| "pending_rd (Rd_start_cas m) = [m]"
| "pending_rd (Rd_message m) = [m]"
| "pending_rd _ = []"

fun is_crashed_rd :: "phase_rd \<Rightarrow> bool" where
  "is_crashed_rd (Rd_crashed _) = True"
| "is_crashed_rd _ = False"

definition payloads_rd :: "message list \<Rightarrow> u8 list list" where
  "payloads_rd ms = List.map_filter payload ms"

lemma payloads_rd_simps [simp]:
  "payloads_rd [] = []" "payloads_rd (ms @ ms') = payloads_rd ms @ payloads_rd ms'"
  "payloads_rd (m # ms) = (case payload m of None \<Rightarrow> payloads_rd ms | Some b \<Rightarrow> b # payloads_rd ms)"
  by (simp_all add: payloads_rd_def map_filter_def split: option.split)

definition pipeline_rd :: "profile \<Rightarrow> worker_rd \<Rightarrow> bool" where
  "pipeline_rd pf w \<longleftrightarrow>
     (if is_crashed_rd (phase_rd w)
      then \<exists>lost. payloads_rd (polled_rd w) = seen w @ lost \<and> length lost \<le> 1
             \<and> list_all (\<lambda>b. \<not> is_ok (sum_payload_rd pf b)) lost
      else payloads_rd (polled_rd w) = seen w @ payloads_rd (pending_rd (phase_rd w)))"

lemma pipeline_rd_init: "pipeline_rd pf (spawn_worker_rd su)"
  by (auto simp: pipeline_rd_def spawn_worker_rd_def start_worker_rd_def expect_def worker_rd_init_def
      split: prod.splits)

lemma handle_message_pipeline:
  assumes "pipeline_rd pf w" "phase_rd w = Rd_message m"
  shows "pipeline_rd pf (handle_message pf enq m w)"
proof (cases "payload m")
  case None
  with assms show ?thesis by (simp add: handle_message_def pipeline_rd_def)
next
  case (Some bytes)
  with assms show ?thesis
    by (cases "sum_payload_rd pf bytes") (auto simp: handle_message_def pipeline_rd_def Let_def)
qed

lemma worker_step_pipeline:
  assumes "pipeline_rd pf w" "worker_step_rd pf ev (g, w) = Some (g', w')"
  shows "pipeline_rd pf w'"
proof -
  consider (handle) m enq where "phase_rd w = Rd_message m" "w' = handle_message pf enq m w"
    | (other) "\<forall>m. phase_rd w \<noteq> Rd_message m"
    using assms(2) by (cases "phase_rd w"; cases ev) auto
  then show ?thesis
  proof cases
    case handle
    with assms(1) show ?thesis by (simp add: handle_message_pipeline)
  next
    case other
    with assms show ?thesis
      by (cases "phase_rd w"; cases ev)
        (auto simp: pipeline_rd_def load_start_rd_def check_rd_def flush_rd_def Let_def
          split: if_splits sum.splits)
  qed
qed

text \<open>What a run has given a worker: the messages of its polls, read off the schedule.\<close>

fun polled_in :: "event_rd \<Rightarrow> message list" where
  "polled_in (Poll_message m) = [m]"
| "polled_in _ = []"

definition polled_by :: "nat \<Rightarrow> (nat \<times> event_rd) list \<Rightarrow> message list" where
  "polled_by i labs = concat (map (polled_in \<circ> snd) (filter (\<lambda>lab. fst lab = i) labs))"

lemma worker_step_rd_polled:
  "worker_step_rd pf ev (g, w) = Some (g', w') \<Longrightarrow> polled_rd w' = polled_rd w @ polled_in ev"
  by (cases "phase_rd w"; cases ev)
    (auto simp: load_start_rd_def check_rd_def flush_rd_def handle_message_def Let_def
      split: if_splits sum.splits option.splits)

lemma system_step_rd_of_polled:
  assumes "system_step_rd_of pf lab (g, ws) = Some (g', ws')"
  shows "length ws' = length ws \<and>
    (i < length ws \<longrightarrow> polled_rd (ws' ! i) = polled_rd (ws ! i) @ (if fst lab = i then polled_in (snd lab) else []))"
  using assms worker_step_rd_polled
  by (cases lab) (fastforce simp: system_step_rd_of_def nth_list_update split: if_splits option.splits
      simp del: worker_step_rd.simps)

lemma run_rd_polled:
  "exec (system_step_rd_of pf) labs (g, ws) = Some (g', ws') \<Longrightarrow>
   length ws' = length ws \<and> (i < length ws \<longrightarrow> polled_rd (ws' ! i) = polled_rd (ws ! i) @ polled_by i labs)"
proof (induction labs arbitrary: g ws)
  case Nil
  then show ?case by (simp add: polled_by_def)
next
  case (Cons lab labs)
  then obtain g1 ws1 where 1: "system_step_rd_of pf lab (g, ws) = Some (g1, ws1)"
    "exec (system_step_rd_of pf) labs (g1, ws1) = Some (g', ws')"
    by (auto split: option.splits)
  from Cons.IH [OF 1(2)] system_step_rd_of_polled [OF 1(1), of i] show ?case
    by (auto simp: polled_by_def)
qed

lemma system_run_rd_polled:
  assumes "exec (system_step_rd_of pf) labs (globals_rd_init, map (\<lambda>i. spawn_worker_rd (su i)) [0..<n]) = Some (g, ws)"
  shows "map polled_rd ws = map (\<lambda>i. polled_by i labs) [0..<n]"
proof -
  have "polled_rd (spawn_worker_rd su) = []" for su
    by (auto simp: spawn_worker_rd_def start_worker_rd_def expect_def worker_rd_init_def split: prod.splits)
  then show ?thesis
    using run_rd_polled [OF assms] by (intro nth_equalityI) auto
qed

section \<open>Reachable states\<close>

lemma system_rd_run:
  assumes "exec (system_step_rd_of pf) labs (globals_rd_init, map (\<lambda>i. spawn_worker_rd (su i)) [0..<n]) = Some s"
  shows "reachable (system_init_rd su n) (system_step_rd pf) s"
  by (rule exec_reachable [OF _ _ assms])
    (auto intro: system_step_rd_of_step reachable_init simp: system_init_rd_def)

lemma reachable_rd_inv:
  assumes "reachable (system_init_rd su n) (system_step_rd pf) (g, ws)"
  shows "list_all (worker_inv_rd pf) ws" "processed_rd g = of_nat (total_flushed_rd ws)"
    "w \<in> set ws \<Longrightarrow> phase_rd w = Rd_stopped \<Longrightarrow> unat total_records_rd \<le> total_flushed_rd ws"
  using rdkafka_system.reachable_inv [OF assms] by (auto simp: system_inv_rd_def)

lemma reachable_rd_pipeline:
  assumes "reachable (system_init_rd su n) (system_step_rd pf) s"
  shows "list_all (pipeline_rd pf) (snd s)"
  using assms
proof (induction rule: reachable.induct)
  case (reachable_init s)
  then show ?case by (auto simp: system_init_rd_def list_all_iff pipeline_rd_init)
next
  case (reachable_step s s')
  from reachable_step(2) show ?case
  proof cases
    case (worker_rd_moves i ws ev g g' w')
    then have "pipeline_rd pf w'"
      using reachable_step.IH by (intro worker_step_pipeline [OF _ worker_rd_moves(4)]) (simp add: list_all_length)
    then show ?thesis
      using reachable_step.IH worker_rd_moves
      by (auto simp: list_all_iff dest!: subsetD [OF set_update_subset_insert])
  qed
qed

lemma total_flushed_rd_le: "total_flushed_rd ws \<le> total_handled ws"
  unfolding total_flushed_rd_def total_handled_def by (rule sum_list_mono) (rule flushed_rd_le)

lemma idle_cycle:
  assumes "phase_rd w = Rd_poll" "\<not> total_records_rd \<le> processed_rd g"
  shows "exec (worker_step_rd pf) (concat (replicate k [Poll_nothing, Check])) (g, w) = Some (g, w)"
proof -
  have same: "w\<lparr>phase_rd := Rd_poll\<rparr> = w" using assms(1) by (cases w) simp
  show ?thesis by (induction k) (simp_all add: assms check_rd_def same)
qed

text \<open>A sample run: one message handled and counted.\<close>

definition sample_labels_rd :: "(nat \<times> event_rd) list" where
  "sample_labels_rd = map (Pair 0)
     [Poll_message \<lparr>payload = Some (write_record write_varint_rd [3, 4]), msg_key = None\<rparr>,
      Load_start_rd, Cas_start_rd, Handle True, Check]"

definition sample_rd :: system_rd where
  "sample_rd = the (exec (system_step_rd_of Release) sample_labels_rd
     (globals_rd_init, map (\<lambda>i. spawn_worker_rd (True, True, True)) [0..<1]))"

lemma sample_rd_runs:
  "exec (system_step_rd_of Release) sample_labels_rd
     (globals_rd_init, map (\<lambda>i. spawn_worker_rd (True, True, True)) [0..<1]) \<noteq> None"
  by code_simp

lemma sample_rd_reachable:
  "reachable (system_init_rd (\<lambda>_. (True, True, True)) 1) (system_step_rd Release) (fst sample_rd, snd sample_rd)"
  using sample_rd_runs by (intro system_rd_run [of Release sample_labels_rd]) (simp add: sample_rd_def)

section \<open>Properties\<close>

text \<open>
  A worker of the rdkafka processor leaves its loop only when all workers together have handled at
  least fifty million messages, and what the shared counter then holds never exceeds what was handled.
\<close>

lemma rdkafka_stop_reason:
  assumes "reachable (system_init_rd su n) (system_step_rd pf) (g, ws)" "total_handled ws < 2 ^ 64"
  shows "unat (processed_rd g) \<le> total_handled ws
    \<and> (w \<in> set ws \<longrightarrow> phase_rd w = Rd_stopped \<longrightarrow> 50000000 \<le> total_handled ws)"
proof -
  note inv = reachable_rd_inv [OF assms(1)] and le = total_flushed_rd_le [of ws]
  have "unat (processed_rd g) = total_flushed_rd ws"
    using inv(2) le assms(2) by (simp add: unat_of_nat)
  moreover have "unat total_records_rd = 50000000" by (simp add: total_records_rd_def)
  ultimately show ?thesis using inv(3) [of w] le by auto
qed

lemma rdkafka_stop_reason_witness:
  "unat (processed_rd (fst sample_rd)) \<le> total_handled (snd sample_rd)"
proof -
  have "total_handled (snd sample_rd) = 1" by code_simp
  then have "total_handled (snd sample_rd) < 2 ^ 64" by simp
  with rdkafka_stop_reason [OF sample_rd_reachable] show ?thesis by blast
qed

text \<open>
  C10: The benchmark of the rdkafka processor does not end unless the split over its workers is even: the
  rest below 1000 of a worker is never added to the counter, so if the workers have handled no more than
  the fifty million records, and one of them a number that 1000 does not divide, then none has stopped,
  and a worker that finds no more messages polls for ever.
\<close>

theorem rdkafka_uneven_never_stops:
  assumes "reachable (system_init_rd su n) (system_step_rd pf) (g, ws)"
    and "total_handled ws \<le> 50000000" "v \<in> set ws" "length (handled v) mod 1000 \<noteq> 0"
  shows "list_all (\<lambda>w. phase_rd w \<noteq> Rd_stopped) ws
    \<and> (w \<in> set ws \<longrightarrow> phase_rd w = Rd_poll \<longrightarrow>
        exec (worker_step_rd pf) (concat (replicate k [Poll_nothing, Check])) (g, w) = Some (g, w))"
proof -
  note inv = reachable_rd_inv [OF assms(1)]
  have less: "total_flushed_rd ws < unat total_records_rd"
    using total_flushed_uneven [OF inv(1) assms(3,4)] assms(2) by (simp add: total_records_rd_def)
  then have "\<not> total_records_rd \<le> processed_rd g"
    using inv(2) unat_of_nat_le [of "total_flushed_rd ws"] by (simp add: word_le_nat_alt)
  with less inv(3) idle_cycle show ?thesis by (fastforce simp: list_all_iff)
qed

theorem rdkafka_uneven_never_stops_witness:
  "list_all (\<lambda>w. phase_rd w \<noteq> Rd_stopped) (snd sample_rd)
   \<and> exec (worker_step_rd Release) (concat (replicate 1000 [Poll_nothing, Check]))
       (fst sample_rd, hd (snd sample_rd)) = Some (fst sample_rd, hd (snd sample_rd))"
proof -
  have "total_handled (snd sample_rd) = 1" by code_simp
  then have "total_handled (snd sample_rd) \<le> 50000000" by simp
  moreover have "hd (snd sample_rd) \<in> set (snd sample_rd)" by code_simp
  moreover have "length (handled (hd (snd sample_rd))) mod 1000 \<noteq> 0" "phase_rd (hd (snd sample_rd)) = Rd_poll"
    by code_simp+
  ultimately show ?thesis using rdkafka_uneven_never_stops [OF sample_rd_reachable] by blast
qed

text \<open>
  C31: Whatever the interleaving, a worker has called \<open>send\<close> once for each payload that it decoded, in
  order, with the encoding of that payload's sum; and it has decoded all payloads that its polls returned
  but at most one, the last, which it has in hand or which made it crash.
\<close>

theorem rdkafka_sends_sums:
  assumes "reachable (system_init_rd su n) (system_step_rd pf) (g, ws)" "w \<in> set ws"
  shows "list_all2 (\<lambda>bytes (key, buf, enqueued). \<exists>s. sum_payload_rd pf bytes = Ok s \<and> buf = write_varint_rd [] s)
    (seen w) (handled w)
    \<and> (\<exists>rest. payloads_rd (polled_rd w) = seen w @ rest \<and> length rest \<le> 1)"
proof -
  have "length (payloads_rd (pending_rd ph)) \<le> 1" for ph
    by (cases ph) (simp_all split: option.split)
  then show ?thesis
    using reachable_rd_inv(1) [OF assms(1)] reachable_rd_pipeline [OF assms(1)] assms(2)
    by (fastforce simp: list_all_iff worker_inv_rd_def sends_sum_rd_def pipeline_rd_def split: if_splits)
qed

theorem rdkafka_sends_sums_witness:
  "list_all2 (\<lambda>bytes (key, buf, enqueued). \<exists>s. sum_payload_rd Release bytes = Ok s \<and> buf = write_varint_rd [] s)
    (seen (hd (snd sample_rd))) (handled (hd (snd sample_rd)))
   \<and> (\<exists>rest. payloads_rd (polled_rd (hd (snd sample_rd))) = seen (hd (snd sample_rd)) @ rest \<and> length rest \<le> 1)"
proof -
  have "hd (snd sample_rd) \<in> set (snd sample_rd)" by code_simp
  from rdkafka_sends_sums [OF sample_rd_reachable this] show ?thesis .
qed

end
