(* ===== verification/Rdkafka_Refinement.thy ===== *)
theory Rdkafka_Refinement
  imports Rdkafka_Worker Summing_Service
begin

text \<open>
  The rdkafka processor implements the same summing service, without waiting for its deliveries to resolve:
  a delivery is a call of \<open>producer.send\<close>, whose result the code drops. What a worker is given are the messages
  that its polls returned; one that stops has called \<open>send\<close> for each that has a payload.
\<close>

section \<open>Abstraction\<close>

fun outputs_rd :: "profile \<Rightarrow> u8 list option list \<Rightarrow> u8 list list" where
  "outputs_rd pf [] = []"
| "outputs_rd pf (None # vs) = outputs_rd pf vs"
| "outputs_rd pf (Some bytes # vs) =
     (case sum_payload_rd pf bytes of
        Inl _ \<Rightarrow> outputs_rd pf vs
      | Inr s \<Rightarrow> write_varint_rd [] s # outputs_rd pf vs)"

lemma outputs_rd_append: "outputs_rd pf (vs @ vs') = outputs_rd pf vs @ outputs_rd pf vs'"
  by (induction pf vs rule: outputs_rd.induct) (auto split: sum.splits)

fun phase_status_rd :: "phase_rd \<Rightarrow> status" where
  "phase_status_rd Rd_stopped = Completed"
| "phase_status_rd (Rd_crashed _) = Failed"
| "phase_status_rd _ = Serving"

definition sent_rd :: "worker_rd \<Rightarrow> u8 list list" where
  "sent_rd w = map (\<lambda>(key, buf, enqueued). buf) (handled w)"

definition abs_worker_rd :: "worker_rd \<Rightarrow> service" where
  "abs_worker_rd w =
     \<lparr>given = map payload (polled_rd w), delivered = sent_rd w, resolved = [],
      status = phase_status_rd (phase_rd w)\<rparr>"

definition abs_system_rd :: "system_rd \<Rightarrow> service list" where
  "abs_system_rd s = map abs_worker_rd (snd s)"

lemma abs_worker_rd_simps [simp]:
  "given (abs_worker_rd w) = map payload (polled_rd w)" "delivered (abs_worker_rd w) = sent_rd w"
  "resolved (abs_worker_rd w) = []" "status (abs_worker_rd w) = phase_status_rd (phase_rd w)"
  by (simp_all add: abs_worker_rd_def)

section \<open>Simulation\<close>

text \<open>The invariant says that what was sent is what was owed, less what is in hand.\<close>

definition refine_inv_rd :: "profile \<Rightarrow> worker_rd \<Rightarrow> bool" where
  "refine_inv_rd pf w \<longleftrightarrow> worker_inv_rd pf w \<and> pipeline_rd pf w"

lemma outputs_rd_list_all2:
  "list_all2 (\<lambda>bytes (key, buf, enq). \<exists>s. sum_payload_rd pf bytes = Ok s \<and> buf = write_varint_rd [] s) bs hs \<Longrightarrow>
   outputs_rd pf (map Some bs) = map (\<lambda>(key, buf, enqueued). buf) hs"
  by (induction rule: list_all2_induct) auto

lemma outputs_rd_payloads: "outputs_rd pf (map payload ms) = outputs_rd pf (map Some (payloads_rd ms))"
  by (induction ms) (auto split: option.split sum.split)

lemma outputs_rd_lost: "list_all (\<lambda>b. \<not> is_ok (sum_payload_rd pf b)) lost \<Longrightarrow> outputs_rd pf (map Some lost) = []"
  by (induction lost) (auto simp: is_ok_def split: sum.splits)

lemma sent_rd_outputs:
  assumes "refine_inv_rd pf w"
  shows "outputs_rd pf (map payload (polled_rd w)) = sent_rd w @ outputs_rd pf (map payload (pending_rd (phase_rd w)))"
proof -
  have sent: "outputs_rd pf (map Some (seen w)) = sent_rd w"
    using assms unfolding sent_rd_def
    by (intro outputs_rd_list_all2) (simp add: refine_inv_rd_def worker_inv_rd_def sends_sum_rd_def)
  show ?thesis
  proof (cases "is_crashed_rd (phase_rd w)")
    case True
    then have "pending_rd (phase_rd w) = []" by (cases "phase_rd w") auto
    with True assms sent show ?thesis
      by (auto simp: refine_inv_rd_def pipeline_rd_def outputs_rd_payloads [of pf "polled_rd w"] outputs_rd_append
          outputs_rd_lost)
  next
    case False
    with assms sent show ?thesis
      by (simp add: refine_inv_rd_def pipeline_rd_def outputs_rd_payloads outputs_rd_append)
  qed
qed

lemma handle_simulation:
  assumes inv: "refine_inv_rd pf w" and ph: "phase_rd w = Rd_message m"
  shows "(service_step (outputs_rd pf) False)\<^sup>*\<^sup>*
    (abs_worker_rd w) (abs_worker_rd (handle_message pf enq m w))"
proof -
  let ?v = "abs_worker_rd w" and ?w = "handle_message pf enq m w"
  consider (skips) "abs_worker_rd ?w = ?v" | (fails) "abs_worker_rd ?w = ?v\<lparr>status := Failed\<rparr>"
    | (sums) bytes s where "payload m = Some bytes" "sum_payload_rd pf bytes = Ok s"
        "abs_worker_rd ?w = ?v\<lparr>delivered := delivered ?v @ [write_varint_rd [] s]\<rparr>"
  proof (cases "payload m")
    case None
    with that(1) ph show ?thesis by (simp add: handle_message_def abs_worker_rd_def sent_rd_def)
  next
    case (Some bytes)
    show ?thesis
    proof (cases "sum_payload_rd pf bytes")
      case (Inl p)
      with that(2) ph Some show ?thesis by (simp add: handle_message_def abs_worker_rd_def sent_rd_def)
    next
      case (Inr s)
      with that(3) [OF Some Inr] ph Some show ?thesis
        by (simp add: handle_message_def abs_worker_rd_def sent_rd_def Let_def)
    qed
  qed
  then show ?thesis
  proof cases
    case fails
    then show ?thesis using ph service_step.fail [of ?v] by auto
  next
    case sums
    have "service_step (outputs_rd pf) False ?v (?v\<lparr>delivered := delivered ?v @ [write_varint_rd [] s]\<rparr>)"
      using ph sums(1,2) sent_rd_outputs [OF inv]
      by (intro service_step.deliver [where later = "[]"]) simp_all
    with sums(3) show ?thesis by simp
  qed simp
qed

lemma stop_simulation:
  assumes "refine_inv_rd pf w" "phase_rd w \<in> {Rd_flush, Rd_check}"
  shows "service_step (outputs_rd pf) False (abs_worker_rd w) (abs_worker_rd (w\<lparr>phase_rd := Rd_stopped\<rparr>))"
proof -
  have "abs_worker_rd (w\<lparr>phase_rd := Rd_stopped\<rparr>) = (abs_worker_rd w)\<lparr>status := Completed\<rparr>"
    by (simp add: abs_worker_rd_def sent_rd_def)
  then show ?thesis
    using sent_rd_outputs [OF assms(1)] assms(2) service_step.complete [of "abs_worker_rd w"] by auto
qed

lemma worker_rd_simulation:
  assumes inv: "refine_inv_rd pf w" and step: "worker_step_rd pf ev (g, w) = Some (g', w')"
  shows "(service_step (outputs_rd pf) False)\<^sup>*\<^sup>* (abs_worker_rd w) (abs_worker_rd w')"
proof -
  have crash: "service_step (outputs_rd pf) False (abs_worker_rd w) (abs_worker_rd (w\<lparr>phase_rd := Rd_crashed p\<rparr>))"
    if "\<not> ended_rd (phase_rd w)" for p
    using that service_step.fail [of "abs_worker_rd w"]
    by (cases "phase_rd w") (auto simp: abs_worker_rd_def sent_rd_def)
  consider (polls) m where "phase_rd w = Rd_poll" "ev = Poll_message m"
      "abs_worker_rd w' = (abs_worker_rd w)\<lparr>given := given (abs_worker_rd w) @ [payload m]\<rparr>"
    | (handle) m enq where "phase_rd w = Rd_message m" "w' = handle_message pf enq m w"
    | (stops) "phase_rd w \<in> {Rd_flush, Rd_check}" "w' = w\<lparr>phase_rd := Rd_stopped\<rparr>"
    | (crashes) p where "\<not> ended_rd (phase_rd w)" "w' = w\<lparr>phase_rd := Rd_crashed p\<rparr>"
    | (stays) "abs_worker_rd w' = abs_worker_rd w"
    using step
    by (cases "phase_rd w"; cases ev)
      (auto simp: load_start_rd_def flush_rd_def check_rd_def abs_worker_rd_def sent_rd_def Let_def
        split: sum.splits if_splits)
  then show ?thesis
  proof cases
    case polls
    then show ?thesis using take_records [of "abs_worker_rd w"] by auto
  next
    case handle
    with handle_simulation [OF inv] show ?thesis by simp
  next
    case stops
    with stop_simulation [OF inv] show ?thesis by auto
  next
    case crashes
    with crash show ?thesis by auto
  qed simp
qed

definition system_refine_inv_rd :: "profile \<Rightarrow> system_rd \<Rightarrow> bool" where
  "system_refine_inv_rd pf s \<longleftrightarrow> system_inv_rd pf s \<and> list_all (pipeline_rd pf) (snd s)"

lemma system_refine_inv_rd_init: "system_init_rd su n s \<Longrightarrow> system_refine_inv_rd pf s"
  using reachable_rd_pipeline [OF reachable_init, of su n s pf]
  by (simp add: system_refine_inv_rd_def system_inv_rd_init)

lemma system_refine_inv_rd_step:
  assumes "system_refine_inv_rd pf s" "system_step_rd pf s s'"
  shows "system_refine_inv_rd pf s'"
  using assms(2)
proof cases
  case (worker_rd_moves i ws ev g g' w')
  then have "pipeline_rd pf w'"
    using assms(1) by (intro worker_step_pipeline [OF _ worker_rd_moves(4)])
      (simp add: system_refine_inv_rd_def list_all_length)
  then have "list_all (pipeline_rd pf) (snd s')"
    using assms(1) worker_rd_moves
    by (auto simp: system_refine_inv_rd_def list_all_iff dest!: subsetD [OF set_update_subset_insert])
  then show ?thesis using assms system_inv_rd_step [of pf s s'] by (simp add: system_refine_inv_rd_def)
qed

lemma system_rd_simulation:
  assumes "system_refine_inv_rd pf s" "system_step_rd pf s s'"
  shows "(services_step (outputs_rd pf) False)\<^sup>*\<^sup>* (abs_system_rd s) (abs_system_rd s')"
  using assms(2)
proof cases
  case (worker_rd_moves i ws ev g g' w')
  then have "refine_inv_rd pf (ws ! i)"
    using assms(1) by (simp add: system_refine_inv_rd_def system_inv_rd_def refine_inv_rd_def list_all_length)
  from services_run [OF worker_rd_simulation [OF this worker_rd_moves(4)], of i "map abs_worker_rd ws"]
    worker_rd_moves
  show ?thesis by (simp add: abs_system_rd_def map_update)
qed

lemma abs_spawn_worker_rd: "service_init (abs_worker_rd (spawn_worker_rd su))"
  by (auto simp: service_init_def spawn_worker_rd_def start_worker_rd_def expect_def worker_rd_init_def
      sent_rd_def split: prod.splits)

lemma abs_system_rd_init: "system_init_rd su n s \<Longrightarrow> services_init n (abs_system_rd s)"
  by (simp add: system_init_rd_def services_init_def abs_system_rd_def list_all_iff abs_spawn_worker_rd)

interpretation rdkafka_service: summing_service "outputs_rd pf" False for pf
  by unfold_locales (rule outputs_rd_append)

interpretation rdkafka_refines: refinement "system_init_rd su n" "system_step_rd pf" "system_refine_inv_rd pf"
    abs_system_rd "services_init n" "services_step (outputs_rd pf) False"
  for su n pf
  by unfold_locales
    (auto intro: abs_system_rd_init system_rd_simulation system_refine_inv_rd_init system_refine_inv_rd_step)

section \<open>Properties\<close>

text \<open>
  C13: The rdkafka worker system refines the same service, but the one that completes without waiting for its
  deliveries: what the service of a worker is given is exactly what the polls of that worker returned in the
  run, message by message; what was delivered, the calls of \<open>send\<close>, is all that is owed for these messages,
  less the one in hand; and each step is a run of the service, which may be empty.
\<close>

theorem rdkafka_implements_service:
  assumes "exec (system_step_rd_of pf) labs (globals_rd_init, map (\<lambda>i. spawn_worker_rd (su i)) [0..<n]) = Some s"
  shows "reachable (services_init n) (services_step (outputs_rd pf) False) (abs_system_rd s)
    \<and> list_all (service_ok (outputs_rd pf) False) (abs_system_rd s)
    \<and> map given (abs_system_rd s) = map (\<lambda>i. map payload (polled_by i labs)) [0..<n]
    \<and> list_all (\<lambda>w. outputs_rd pf (map payload (polled_rd w))
        = sent_rd w @ outputs_rd pf (map payload (pending_rd (phase_rd w)))) (snd s)
    \<and> (system_step_rd pf s s' \<longrightarrow>
        (services_step (outputs_rd pf) False)\<^sup>*\<^sup>* (abs_system_rd s) (abs_system_rd s'))"
proof -
  note r = system_rd_run [OF assms]
  note inv = rdkafka_refines.reachable_inv [OF r]
  obtain g ws where s: "s = (g, ws)" by (cases s)
  have "map given (abs_system_rd s) = map (map payload) (map polled_rd ws)"
    by (simp add: abs_system_rd_def s comp_def)
  also have "\<dots> = map (\<lambda>i. map payload (polled_by i labs)) [0..<n]"
    using system_run_rd_polled [OF assms [unfolded s]] by simp
  finally have given: "map given (abs_system_rd s) = map (\<lambda>i. map payload (polled_by i labs)) [0..<n]" .
  have "list_all (\<lambda>w. outputs_rd pf (map payload (polled_rd w))
      = sent_rd w @ outputs_rd pf (map payload (pending_rd (phase_rd w)))) (snd s)"
    using inv sent_rd_outputs
    by (auto simp: system_refine_inv_rd_def system_inv_rd_def refine_inv_rd_def list_all_iff)
  with given rdkafka_refines.abs_reachable [OF r]
    rdkafka_service.services.reachable_inv [OF rdkafka_refines.abs_reachable [OF r]]
    system_rd_simulation [OF inv] show ?thesis by blast
qed

theorem rdkafka_implements_service_witness:
  "reachable (services_init 1) (services_step (outputs_rd Release) False) (abs_system_rd sample_rd)
   \<and> map given (abs_system_rd sample_rd) = [[Some (write_record write_varint_rd [3, 4])]]"
proof -
  have "exec (system_step_rd_of Release) sample_labels_rd
      (globals_rd_init, map (\<lambda>i. spawn_worker_rd (True, True, True)) [0..<1]) = Some sample_rd"
    using sample_rd_runs by (auto simp: sample_rd_def)
  note * = rdkafka_implements_service [OF this]
  have "map (\<lambda>i. map payload (polled_by i sample_labels_rd)) [0..<1] = [[Some (write_record write_varint_rd [3, 4])]]"
    by (simp add: polled_by_def sample_labels_rd_def)
  with * show ?thesis by simp
qed

end
