(* ===== verification/Krafka_Termination.thy ===== *)
theory Krafka_Termination
  imports Krafka_System
begin

text \<open>
  Termination of phase 2 of the krafka processor. Once the broker has no more records, so that every
  poll returns an empty batch, the workers end: a measure of what a worker still has to do decreases
  with every step, and a step is possible until all have ended. Records already polled, buffers in the
  channel and sends in flight are all part of the measure.
\<close>

section \<open>Runs with a drained broker\<close>

fun drained_event :: "worker_event \<Rightarrow> bool" where
  "drained_event (Consume Poll_err) = False"
| "drained_event (Consume (Poll_ok records)) = (records = [])"
| "drained_event _ = True"

definition drained_step_of :: "profile \<Rightarrow> nat \<times> worker_event \<Rightarrow> system \<Rightarrow> system option" where
  "drained_step_of pf lab s = (if drained_event (snd lab) then system_step_of pf lab s else None)"

text \<open>
  Empty polls left, counted with the check before each; then the records in hand, four for each: at
  most two for the buffer in the channel, one for the send, one for the record itself.
\<close>

definition idle_measure :: "worker \<Rightarrow> nat" where
  "idle_measure w = 2 * (3 - unat (consecutive_empty w))"

fun loop_measure :: "phase \<Rightarrow> nat \<Rightarrow> nat" where
  "loop_measure At_check k = k + 1"
| "loop_measure In_poll k = k"
| "loop_measure (At_start_load records) k = 4 * length records + k + 4"
| "loop_measure (At_start_cas records) k = 4 * length records + k + 3"
| "loop_measure (At_record records) k = 4 * length records + k + 2"
| "loop_measure (In_send _ records) k = 4 * length records + k + 5"
| "loop_measure _ k = 0"

definition worker_measure :: "worker \<Rightarrow> nat" where
  "worker_measure w = loop_measure (phase w) (idle_measure w) + drain_measure w"

lemma drain_measure_phase:
  "p \<noteq> Draining \<Longrightarrow> drain_measure (w\<lparr>phase := p\<rparr>) \<le> drain_measure w"
  "drain_measure (w\<lparr>phase := Draining\<rparr>) \<le> drain_measure w + 1"
  by (simp_all add: drain_measure_def)

lemma consume_step_measure:
  assumes inv: "worker_inv pf w" and step: "consume_step pf ev (g, w) = Some (g', w')"
    and drained: "drained_event (Consume ev)"
  shows "worker_measure w' < worker_measure w"
proof -
  have empty: "unat (consecutive_empty w) < 3" if "tx_alive (phase w)"
    using inv that by (simp add: worker_inv_def counters_ok_def)
  note next_empty = u32_add_one [of "consecutive_empty w"]
  have run: "task w = Task_running" if "phase w = In_send buf records" for buf records
    by (rule sending_task_running [OF inv that])
  show ?thesis
    using step drained empty next_empty run
    by (cases "phase w"; cases ev)
      (auto simp: worker_measure_def idle_measure_def drain_measure_def check_counter_def poll_ok_def
        load_start_def cas_start_def next_record_def send_buf_def Let_def word_le_nat_alt not_le
        split: if_splits option.splits list.splits sum.splits)
qed

lemma produce_step_measure:
  assumes step: "produce_step ev (g, w) = Some (g', w')"
  shows "worker_measure w' < worker_measure w"
proof -
  have run: "task w = Task_running" using step by (auto split: if_splits)
  have same: "loop_measure (phase w') (idle_measure w') = loop_measure (phase w) (idle_measure w)"
    using step by (cases ev)
      (auto simp: recv_buf_def complete_send_def task_exit_def idle_measure_def Let_def
        split: if_splits list.splits phase.splits)
  have "drain_measure w' < drain_measure w"
  proof (cases ev)
    case Recv
    with step run show ?thesis
      by (auto simp: drain_measure_def recv_buf_def recv_enabled_def split: if_splits list.splits)
  next
    case (Complete i sent_ok)
    with step run show ?thesis by (auto intro: complete_send_measure)
  next
    case Task_exit
    with step run show ?thesis by (auto intro: task_exit_measure)
  next
    case Abort
    with step run show ?thesis by (auto simp: drain_measure_def split: phase.splits)
  qed
  with same show ?thesis by (simp add: worker_measure_def)
qed

lemma worker_step_measure:
  assumes "worker_inv pf w" "worker_step pf ev (g, w) = Some (g', w')" "drained_event ev"
  shows "worker_measure w' < worker_measure w"
proof (cases ev)
  case (Consume e)
  with assms show ?thesis by (auto intro: consume_step_measure)
next
  case (Produce e)
  with assms show ?thesis by (auto intro: produce_step_measure simp del: produce_step.simps)
qed

section \<open>The system\<close>

definition system_measure :: "system \<Rightarrow> nat" where
  "system_measure s = (\<Sum>w \<leftarrow> snd s. worker_measure w)"

lemma drained_step_inv: "system_inv pf s \<Longrightarrow> drained_step_of pf lab s = Some s' \<Longrightarrow> system_inv pf s'"
  by (auto simp: drained_step_of_def split: if_splits intro: system_inv_step system_step_of_step)

lemma drained_step_measure:
  assumes "system_inv pf s" "drained_step_of pf lab s = Some s'"
  shows "system_measure s' < system_measure s"
proof -
  obtain i ev g ws where lab: "lab = (i, ev)" and s: "s = (g, ws)" by (cases lab, cases s)
  from assms(2) obtain g' w' where i: "i < length ws" "drained_event ev"
    and w': "worker_step pf ev (g, ws ! i) = Some (g', w')" and s': "s' = (g', ws[i := w'])"
    by (auto simp: drained_step_of_def system_step_of_def lab s split: if_splits option.splits)
  have "worker_inv pf (ws ! i)" using assms(1) i(1) by (simp add: system_inv_def s list_all_length)
  from worker_step_measure [OF this w' i(2)] sum_list_nat_update [OF i(1), of worker_measure w']
  show ?thesis by (simp add: system_measure_def s s')
qed

text \<open>Progress with drained events only: where a worker polls, the poll is empty.\<close>

lemma drained_progress:
  assumes inv: "worker_inv pf w" and live: "phase w \<noteq> Finished" "\<not> is_crashed (phase w)"
  shows "\<exists>ev g' w'. drained_event ev \<and> worker_step pf ev (g, w) = Some (g', w')"
proof (cases "phase w = In_poll")
  case True
  then have "worker_step pf (Consume (Poll_ok [])) (g, w) = Some (g, poll_ok [] w)" by simp
  then show ?thesis by (intro exI conjI) (rule drained_event.simps(2) [THEN iffD2, OF refl])
next
  case False
  from worker_progress [OF inv live, of g] obtain ev g' w'
    where step: "worker_step pf ev (g, w) = Some (g', w')" by blast
  have "drained_event ev"
  proof (rule ccontr)
    assume "\<not> drained_event ev"
    then obtain e where "ev = Consume e" "e = Poll_err \<or> (\<exists>records. e = Poll_ok records)"
      by (cases ev rule: drained_event.cases) auto
    with step False show False by (auto split: phase.splits)
  qed
  with step show ?thesis by blast
qed

lemma drained_system_progress:
  assumes "system_inv pf s" "\<not> all_joined s"
  shows "\<exists>lab s'. drained_step_of pf lab s = Some s'"
proof -
  obtain g ws where s: "s = (g, ws)" by (cases s)
  from assms(2) obtain i where i: "i < length ws" "phase (ws ! i) \<noteq> Finished" "\<not> is_crashed (phase (ws ! i))"
    by (auto simp: all_joined_def list_all_length s)
  have "worker_inv pf (ws ! i)" using assms(1) i(1) by (simp add: system_inv_def s list_all_length)
  from drained_progress [OF this i(2,3), of g] obtain ev g' w'
    where "drained_event ev" "worker_step pf ev (g, ws ! i) = Some (g', w')" by blast
  with i(1) have "drained_step_of pf (i, ev) s = Some (g', ws[i := w'])"
    by (simp add: drained_step_of_def system_step_of_def s)
  then show ?thesis by blast
qed

lemma drained_runs_bounded:
  assumes "system_inv pf s" "exec (drained_step_of pf) labs s = Some s'"
  shows "length labs \<le> system_measure s"
proof -
  have "length labs + system_measure s' \<le> system_measure s"
    by (rule exec_bounded [where P = "system_inv pf" and f = "drained_step_of pf"])
      (auto intro: drained_step_inv drained_step_measure assms)
  then show ?thesis by simp
qed

lemma drained_runs_end:
  "system_inv pf s \<Longrightarrow>
   \<exists>labs s'. exec (drained_step_of pf) labs s = Some s' \<and> system_inv pf s' \<and> all_joined s'
     \<and> length labs \<le> system_measure s"
  using exec_terminates [where P = "system_inv pf" and m = system_measure and f = "drained_step_of pf"
      and goal = all_joined and s = s]
    drained_step_inv drained_step_measure drained_system_progress by blast

lemma exec_drained:
  "exec (drained_step_of pf) labs s = Some s' \<Longrightarrow> exec (system_step_of pf) labs s = Some s'"
  by (induction labs arbitrary: s) (auto simp: drained_step_of_def split: option.splits if_splits)

text \<open>The initial measure: seven for the polls and two for the task and the channel.\<close>

lemma worker_measure_spawn: "worker_measure (spawn_worker su i) \<le> 9"
  by (cases su i rule: spawn_worker_cases)
    (auto simp: worker_measure_def idle_measure_def drain_measure_def worker_init_def)

lemma loop_measure_le: "loop_measure p k \<le> 4 * length (remaining p) + k + 5"
  by (cases p) simp_all

lemma worker_measure_le: "worker_inv pf w \<Longrightarrow> worker_measure w \<le> 4 * length (remaining (phase w)) + 30014"
  using loop_measure_le [of "phase w" "idle_measure w"] drain_measure_le [of pf w]
  by (simp add: worker_measure_def idle_measure_def worker_window_def)

lemma system_measure_le:
  "list_all (worker_inv pf) ws \<Longrightarrow>
   system_measure (g, ws) \<le> (\<Sum>w \<leftarrow> ws. 4 * length (remaining (phase w)) + 30014)"
  using worker_measure_le [of pf]
  by (auto simp: system_measure_def list_all_iff intro!: sum_list_mono)

section \<open>Properties\<close>

text \<open>
  C6: Phase 2 terminates: from any reachable state, in the middle of whatever, if from then on every poll
  returns an empty batch, no schedule of the workers is longer than four steps for each record in hand and
  30014 for each worker, and some schedule, so the one being run too, ends with all workers joined.
\<close>

theorem drained_broker_ends:
  assumes "reachable (system_init su n) (system_step pf) (g, ws)"
  shows "(exec (drained_step_of pf) labs (g, ws) = Some s \<longrightarrow>
      length labs \<le> (\<Sum>w \<leftarrow> ws. 4 * length (remaining (phase w)) + 30014)
      \<and> (\<not> all_joined s \<longrightarrow> (\<exists>lab s'. drained_step_of pf lab s = Some s')))
    \<and> (\<exists>labs s'. exec (drained_step_of pf) labs (g, ws) = Some s' \<and> all_joined s')"
proof -
  have inv: "system_inv pf (g, ws)" by (rule krafka_system.reachable_inv [OF assms])
  then have ws: "list_all (worker_inv pf) ws" by (simp add: system_inv_def)
  have "system_inv pf s" if "exec (drained_step_of pf) labs (g, ws) = Some s"
    by (rule exec_inv [where P = "system_inv pf" and f = "drained_step_of pf", OF _ inv that])
      (rule drained_step_inv)
  then show ?thesis
    using drained_runs_bounded [OF inv] drained_runs_end [OF inv] system_measure_le [OF ws, of g]
      drained_system_progress [of pf s]
    by (meson order_trans)
qed

theorem drained_broker_ends_witness:
  "\<exists>labs s'. exec (drained_step_of Debug) labs (fst (sample 6), snd (sample 6)) = Some s' \<and> all_joined s'"
  using drained_broker_ends [OF sample_reachable [of 6]] by blast

end
