(* ===== verification/Krafka_Loader.thy ===== *)
theory Krafka_Loader
  imports Krafka_Worker
begin

text \<open>
  Phase 1 of the krafka processor (\<open>stream-test-krafka/src/bin/processor.rs\<close>): recreate the
  benchmark topics, wait for their partition leaders, and load the records through a window of
  sends in flight. Answers of the admin client, the drawn values and the send that completes
  when one is awaited are parameters.
\<close>

section \<open>Topics\<close>

datatype admin_request =
    Delete_topics "string list"
  | Create_topics "(string \<times> i32 \<times> nat) list"

definition benchmark_topics :: "string list" where
  "benchmark_topics = [''integer-list-input-benchmark'', ''integer-sum-output-benchmark'']"

text \<open>
  The requests in their order. The answer to the deletion is dropped; a failed client, topic
  specification or creation panics. Every topic gets \<open>num_workers as i32\<close> partitions and one
  replica.
\<close>

definition prepare_topics ::
  "bool \<Rightarrow> bool \<Rightarrow> (string \<Rightarrow> i32 \<Rightarrow> bool) \<Rightarrow> bool \<Rightarrow> nat \<Rightarrow> admin_request list res"
where
  "prepare_topics admin_ok delete_ok spec_ok create_ok num_workers =
     (let partitions = of_nat num_workers :: i32 in
      and_then (expect ''Failed to create admin client'' admin_ok) (\<lambda>_.
      and_then (expect ''invalid topic spec'' (list_all (\<lambda>t. spec_ok t partitions) benchmark_topics)) (\<lambda>_.
      and_then (expect ''Failed to create benchmark topics'' create_ok) (\<lambda>_.
        Ok [Delete_topics benchmark_topics,
            Create_topics (map (\<lambda>t. (t, partitions, 1)) benchmark_topics)]))))"

text \<open>A described topic, with the leader of each of its partitions.\<close>

type_synonym description = "string \<times> i32 list"

definition all_ready :: "nat \<Rightarrow> description list \<Rightarrow> bool" where
  "all_ready num_workers descriptions =
     list_all (\<lambda>td. length (snd td) = num_workers \<and> list_all (\<lambda>leader. 0 \<le> sint leader) (snd td))
       descriptions"

text \<open>
  The polling loop over the answers of \<open>describe_topics\<close> (\<open>None\<close> is an error): the answer it accepts
  and those left over, or \<open>None\<close> while it still polls after them all.
\<close>

fun wait_ready ::
  "nat \<Rightarrow> description list option list \<Rightarrow> (description list \<times> description list option list) option"
where
  "wait_ready num_workers [] = None"
| "wait_ready num_workers (None # answers) = wait_ready num_workers answers"
| "wait_ready num_workers (Some ds # answers) =
     (if all_ready num_workers ds then Some (ds, answers) else wait_ready num_workers answers)"

lemma wait_ready_Some:
  "wait_ready n answers = Some (ds, rest) \<longleftrightarrow>
   (\<exists>before. answers = before @ Some ds # rest \<and> all_ready n ds
     \<and> (\<forall>a \<in> set before. case a of None \<Rightarrow> True | Some ds' \<Rightarrow> \<not> all_ready n ds'))"
proof (induction n answers rule: wait_ready.induct)
  case (1 n)
  then show ?case by simp
next
  case (2 n answers)
  then show ?case by (auto simp: Cons_eq_append_conv)
next
  case (3 n ds' answers)
  then show ?case by (auto simp: Cons_eq_append_conv)
qed

section \<open>The load loop\<close>

definition load_window :: nat where
  "load_window = 10000"

record loader =
  load_in_flight :: "u8 list list"
  submitted :: "u8 list list"
  completed :: "u8 list list"

definition loader_init :: loader where
  "loader_init = \<lparr>load_in_flight = [], submitted = [], completed = []\<rparr>"

text \<open>\<open>in_flight.next().await\<close>: one of the sends in flight completes and leaves the window.\<close>

definition await_next :: "nat \<Rightarrow> loader \<Rightarrow> loader option" where
  "await_next i l =
     (if i < length (load_in_flight l)
      then Some (l\<lparr>load_in_flight := take i (load_in_flight l) @ drop (Suc i) (load_in_flight l),
                   completed := completed l @ [load_in_flight l ! i]\<rparr>)
      else None)"

text \<open>One iteration: build the record, push its send, await a completion if the window is full.\<close>

definition load_record :: "i64 list \<times> nat \<Rightarrow> loader \<Rightarrow> loader option" where
  "load_record draw l = (case draw of (xs, i) \<Rightarrow>
     let buf = write_record write_varint xs;
         l = l\<lparr>load_in_flight := load_in_flight l @ [buf], submitted := submitted l @ [buf]\<rparr>
     in if load_window \<le> length (load_in_flight l) then await_next i l else Some l)"

fun load_loop :: "(i64 list \<times> nat) list \<Rightarrow> loader \<Rightarrow> loader option" where
  "load_loop [] l = Some l"
| "load_loop (draw # draws) l =
     (case load_record draw l of None \<Rightarrow> None | Some l' \<Rightarrow> load_loop draws l')"

text \<open>
  \<open>for _ in 0..TOTAL_RECORDS\<close>: the draws are those of the random generator, one for each number.
\<close>

definition load_all :: "(nat \<Rightarrow> i64 list \<times> nat) \<Rightarrow> loader \<Rightarrow> loader option" where
  "load_all draws l = load_loop (map draws [0..<unat total_records]) l"

definition records_drawn :: "(nat \<Rightarrow> i64 list \<times> nat) \<Rightarrow> u8 list list" where
  "records_drawn draws = map (write_record write_varint \<circ> fst \<circ> draws) [0..<unat total_records]"

lemma records_drawn_length: "length (records_drawn draws) = 50000000"
  unfolding records_drawn_def length_map length_upt total_records_def by simp

text \<open>\<open>while in_flight.next().await.is_some() {}\<close>\<close>

fun drain_loop :: "nat list \<Rightarrow> loader \<Rightarrow> loader option" where
  "drain_loop [] l = (if load_in_flight l = [] then Some l else None)"
| "drain_loop (i # is) l = (case await_next i l of None \<Rightarrow> None | Some l' \<Rightarrow> drain_loop is l')"

section \<open>The window\<close>

definition loader_inv :: "loader \<Rightarrow> bool" where
  "loader_inv l \<longleftrightarrow>
     length (load_in_flight l) = min (length (submitted l)) (load_window - 1)
     \<and> mset (submitted l) = mset (completed l) + mset (load_in_flight l)"

lemma mset_remove_nth:
  "i < length xs \<Longrightarrow> mset xs = add_mset (xs ! i) (mset (take i xs @ drop (Suc i) xs))"
  by (subst id_take_nth_drop [of i xs]) simp_all

lemma load_record_inv:
  assumes "loader_inv l" "load_record (xs, i) l = Some l'"
  shows "loader_inv l' \<and> submitted l' = submitted l @ [write_record write_varint xs]"
proof (cases "load_window \<le> Suc (length (load_in_flight l))")
  case True
  let ?fl = "load_in_flight l @ [write_record write_varint xs]"
  from assms(2) True have i: "i < length ?fl"
    by (auto simp: load_record_def Let_def await_next_def split: if_splits)
  from assms(2) True have l': "load_in_flight l' = take i ?fl @ drop (Suc i) ?fl"
      "submitted l' = submitted l @ [write_record write_varint xs]"
      "completed l' = completed l @ [?fl ! i]"
    by (auto simp: load_record_def Let_def await_next_def split: if_splits)
  have "length (load_in_flight l') = length (load_in_flight l)"
    using i by (simp add: l'(1))
  moreover have "mset (submitted l') = mset (completed l') + mset (load_in_flight l')"
    using assms(1) mset_remove_nth [OF i] by (simp add: l' loader_inv_def)
  moreover have "load_window - 1 \<le> length (submitted l)"
    using True assms(1) by (simp add: loader_inv_def)
  ultimately show ?thesis using True assms(1) l'(2) by (simp add: loader_inv_def)
next
  case False
  with assms show ?thesis by (auto simp: load_record_def Let_def loader_inv_def)
qed

lemma load_loop_inv:
  "loader_inv l \<Longrightarrow> load_loop draws l = Some l' \<Longrightarrow>
   loader_inv l' \<and> submitted l' = submitted l @ map (write_record write_varint \<circ> fst) draws"
proof (induction draws arbitrary: l)
  case Nil
  then show ?case by simp
next
  case (Cons draw draws)
  obtain xs i where d: "draw = (xs, i)" by (cases draw)
  from Cons.prems(2) obtain l1 where l1: "load_record (xs, i) l = Some l1" "load_loop draws l1 = Some l'"
    by (auto simp: d split: option.splits)
  from load_record_inv [OF Cons.prems(1) l1(1)] Cons.IH [OF _ l1(2)] show ?case by (auto simp: d)
qed

lemma drain_loop_completes:
  "mset (submitted l) = mset (completed l) + mset (load_in_flight l) \<Longrightarrow> drain_loop is l = Some l' \<Longrightarrow>
   mset (completed l') = mset (submitted l') \<and> submitted l' = submitted l \<and> load_in_flight l' = []
   \<and> length is = length (load_in_flight l)"
proof (induction "is" arbitrary: l)
  case Nil
  then show ?case by (auto split: if_splits)
next
  case (Cons i "is")
  from Cons.prems(2) obtain l1 where l1: "await_next i l = Some l1" "drain_loop is l1 = Some l'"
    by (auto split: option.splits)
  then have i: "i < length (load_in_flight l)" by (auto simp: await_next_def split: if_splits)
  have "mset (submitted l1) = mset (completed l1) + mset (load_in_flight l1)"
    "length (load_in_flight l) = Suc (length (load_in_flight l1))" "submitted l1 = submitted l"
    using l1(1) i Cons.prems(1) mset_remove_nth [OF i] by (auto simp: await_next_def)
  with Cons.IH [OF _ l1(2)] show ?case by simp
qed

text \<open>The loop never stalls: with any valid choice of completions it runs through, and drains.\<close>

lemma load_record_enabled:
  "load_record (xs, 0) l \<noteq> None"
  by (auto simp: load_record_def Let_def await_next_def)

lemma load_loop_enabled: "\<exists>l'. load_loop (map (\<lambda>xs. (xs, 0)) xss) l = Some l'"
proof (induction xss arbitrary: l)
  case Nil
  then show ?case by simp
next
  case (Cons xs xss)
  with load_record_enabled [of xs l] show ?case by (auto split: option.splits)
qed

lemma drain_loop_enabled:
  "length (load_in_flight l) = n \<Longrightarrow> \<exists>l'. drain_loop (replicate n 0) l = Some l'"
proof (induction n arbitrary: l)
  case 0
  then show ?case by simp
next
  case (Suc n)
  then obtain l1 where l1: "await_next 0 l = Some l1" "length (load_in_flight l1) = n"
    by (auto simp: await_next_def)
  from Suc.IH [OF l1(2)] l1(1) show ?case by simp
qed

lemma loader_inv_init: "loader_inv loader_init"
  by (simp add: loader_inv_def loader_init_def)

section \<open>Phase 1\<close>

text \<open>
  The whole phase: \<open>Ok None\<close> when the answers or completions given are used up before it ends, so that it
  still waits; the two runtimes and clients and the final flush panic when they fail.
\<close>

record load_setup =
  load_runtime_ok :: bool
  admin_ok :: bool
  delete_ok :: bool
  spec_ok :: "string \<Rightarrow> i32 \<Rightarrow> bool"
  create_ok :: bool
  load_producer_ok :: bool
  flush_ok :: bool

definition phase1 ::
  "load_setup \<Rightarrow> nat \<Rightarrow> description list option list \<Rightarrow> (nat \<Rightarrow> i64 list \<times> nat) \<Rightarrow> nat list \<Rightarrow>
   loader option res"
where
  "phase1 su num_workers answers draws completions =
     and_then (expect ''Failed to create tokio runtime'' (load_runtime_ok su)) (\<lambda>_.
     and_then (prepare_topics (admin_ok su) (delete_ok su) (spec_ok su) (create_ok su) num_workers) (\<lambda>_.
     case wait_ready num_workers answers of
       None \<Rightarrow> Ok None
     | Some _ \<Rightarrow>
         and_then (expect ''Failed to create producer'' (load_producer_ok su)) (\<lambda>_.
         case load_all draws loader_init of
           None \<Rightarrow> Ok None
         | Some l \<Rightarrow>
             (case drain_loop completions l of
                None \<Rightarrow> Ok None
              | Some l \<Rightarrow> and_then (expect ''Failed to flush producer'' (flush_ok su)) (\<lambda>_. Ok (Some l))))))"

lemma phase1_loops:
  "phase1 su n answers draws completions = Ok (Some l) \<Longrightarrow>
   \<exists>l'. load_all draws loader_init = Some l' \<and> drain_loop completions l' = Some l"
  by (auto simp: phase1_def split: option.splits)

lemma phase1_waits:
  "phase1 su n answers draws completions = Ok (Some l) \<Longrightarrow>
   \<exists>ds rest. wait_ready n answers = Some (ds, rest)"
  by (auto simp: phase1_def split: option.splits)

lemma phase1_complete:
  assumes "phase1 su n answers draws completions = Ok (Some l)"
  shows "submitted l = records_drawn draws \<and> mset (completed l) = mset (submitted l) \<and> load_in_flight l = []"
proof -
  obtain l' where l': "load_all draws loader_init = Some l'" "drain_loop completions l' = Some l"
    using phase1_loops [OF assms] by blast
  note inv = load_loop_inv [OF loader_inv_init l'(1) [unfolded load_all_def]]
  have "mset (submitted l') = mset (completed l') + mset (load_in_flight l')"
    using inv unfolding loader_inv_def by blast
  moreover have "submitted l' = records_drawn draws"
    using inv by (simp add: loader_init_def records_drawn_def comp_assoc)
  ultimately show ?thesis using drain_loop_completes [OF _ l'(2)] by simp
qed

lemma phase1_ends:
  assumes "wait_ready n answers \<noteq> None"
    and "load_runtime_ok su" "admin_ok su" "create_ok su" "load_producer_ok su" "flush_ok su"
    and "list_all (\<lambda>t. spec_ok su t (of_nat n)) benchmark_topics"
  shows "\<exists>completions l. phase1 su n answers (\<lambda>k. (xss k, 0)) completions = Ok (Some l)"
proof -
  obtain l1 where l1: "load_all (\<lambda>k. (xss k, 0)) loader_init = Some l1"
    using load_loop_enabled [of "map xss [0..<unat total_records]" loader_init]
    by (auto simp: load_all_def comp_def)
  obtain l2 where l2: "drain_loop (replicate (length (load_in_flight l1)) 0) l1 = Some l2"
    using drain_loop_enabled [of l1] by blast
  show ?thesis
    using assms l1 l2
    by (intro exI [of _ "replicate (length (load_in_flight l1)) 0"] exI [of _ l2])
      (auto simp: phase1_def prepare_topics_def expect_def Let_def)
qed

section \<open>Properties\<close>

text \<open>
  The loader keeps its window: after any number of records, and whichever sends complete first, at
  most 9999 sends are in flight, exactly so many once that many were made; every record built was
  submitted in order, and each submitted one is either complete or in flight.
\<close>

lemma loader_window:
  assumes "load_loop draws loader_init = Some l"
  shows "submitted l = map (write_record write_varint \<circ> fst) draws
    \<and> length (load_in_flight l) = min (length draws) 9999
    \<and> mset (submitted l) = mset (completed l) + mset (load_in_flight l)"
  using load_loop_inv [OF loader_inv_init assms]
  by (auto simp: loader_inv_def loader_init_def load_window_def)

lemma loader_window_witness:
  "length (load_in_flight (the (load_loop [([1, 2], 0), ([3, 4], 0)] loader_init))) = min 2 9999"
proof -
  have "load_loop [([1, 2], 0), ([3, 4], 0)] loader_init
      = Some (the (load_loop [([1, 2], 0), ([3, 4], 0)] loader_init))"
    using load_loop_enabled [of "[[1, 2], [3, 4]]" loader_init] by fastforce
  from loader_window [OF this] show ?thesis by simp
qed

text \<open>
  C30: A phase 1 that ends has submitted fifty million records, each drawn one exactly once, and has awaited the
  completion of every send, none left in flight; and it ends for any draws, with the completions in some
  order, once a description reports the leaders of all partitions.
\<close>

theorem phase1_loads_all:
  assumes "wait_ready n answers \<noteq> None"
    and "load_runtime_ok su" "admin_ok su" "create_ok su" "load_producer_ok su" "flush_ok su"
    and "list_all (\<lambda>t. spec_ok su t (of_nat n)) benchmark_topics"
  shows "(\<exists>completions l. phase1 su n answers (\<lambda>k. (xss k, 0)) completions = Ok (Some l))
    \<and> (phase1 su n answers draws completions = Ok (Some l) \<longrightarrow>
        submitted l = records_drawn draws \<and> length (submitted l) = 50000000
        \<and> mset (completed l) = mset (submitted l) \<and> load_in_flight l = [])"
  using phase1_ends [OF assms] phase1_complete [of su n answers draws completions l] records_drawn_length [of draws]
  by simp

theorem phase1_loads_all_witness:
  "\<exists>completions l. phase1
     \<lparr>load_runtime_ok = True, admin_ok = True, delete_ok = False, spec_ok = (\<lambda>_ _. True),
      create_ok = True, load_producer_ok = True, flush_ok = True\<rparr>
     1 [None, Some [(''integer-list-input-benchmark'', [0])]] (\<lambda>k. ([1, of_nat k], 0)) completions
     = Ok (Some l) \<and> length (submitted l) = 50000000"
proof -
  let ?su = "\<lparr>load_runtime_ok = True, admin_ok = True, delete_ok = False, spec_ok = (\<lambda>_ _. True),
      create_ok = True, load_producer_ok = True, flush_ok = True\<rparr>"
  let ?answers = "[None, Some [(''integer-list-input-benchmark'', [0 :: i32])]]"
  have ready: "wait_ready 1 ?answers \<noteq> None" by code_simp
  have ok: "load_runtime_ok ?su" "admin_ok ?su" "create_ok ?su" "load_producer_ok ?su" "flush_ok ?su"
    "list_all (\<lambda>t. spec_ok ?su t (of_nat 1)) benchmark_topics"
    by (simp_all add: benchmark_topics_def)
  note * = phase1_loads_all [OF ready ok, where draws = "\<lambda>k. ([1, of_nat k], 0)"]
  obtain completions l where "phase1 ?su 1 ?answers (\<lambda>k. ([1, of_nat k], 0)) completions = Ok (Some l)"
    using * [of "\<lambda>k. [1, of_nat k]"] by blast
  with * [of _ completions l] show ?thesis by blast
qed

text \<open>
  Waiting for leaders ends with the first answer, errors passed over, in which every described topic
  has \<open>num_workers\<close> partitions with a leader each; but an answer that describes no topic passes too.
\<close>

lemma waits_for_leaders:
  "(wait_ready n answers = Some (ds, rest) \<longleftrightarrow>
      (\<exists>before. answers = before @ Some ds # rest \<and> all_ready n ds
        \<and> list_all (\<lambda>a. case a of None \<Rightarrow> True | Some ds' \<Rightarrow> \<not> all_ready n ds') before))
   \<and> all_ready n []"
  by (simp add: wait_ready_Some list_all_iff all_ready_def)

end
