(* ===== verification/Text_Format.thy ===== *)
theory Text_Format
  imports Prelude
begin

text \<open>
  The string operations of the Rust standard library that the programs use: \<open>Display\<close> of
  integers, \<open>str::parse::<usize>\<close>, \<open>str::contains\<close> and \<open>str::replace\<close>. Strings are byte lists;
  every literal of the programs that these operations meet is ASCII.
\<close>

section \<open>Integers as text\<close>

definition digit_char :: "nat \<Rightarrow> char" where
  "digit_char d = char_of (48 + d)"

fun show_nat :: "nat \<Rightarrow> string" where
  "show_nat n = (if n < 10 then [digit_char n] else show_nat (n div 10) @ [digit_char (n mod 10)])"

declare show_nat.simps [simp del]

definition show_int :: "int \<Rightarrow> string" where
  "show_int k = (if k < 0 then CHR ''-'' # show_nat (nat (- k)) else show_nat (nat k))"

definition char_digit :: "char \<Rightarrow> nat option" where
  "char_digit c = (let k = of_char c in if 48 \<le> k \<and> k < 58 then Some (k - 48) else None)"

text \<open>
  Parsing a 64-bit \<open>usize\<close>: every step checks the multiplication and the addition for overflow;
  a leading plus sign is allowed, but not alone.
\<close>

fun parse_digits :: "nat \<Rightarrow> string \<Rightarrow> nat option" where
  "parse_digits a [] = Some a"
| "parse_digits a (c # cs) =
     (case char_digit c of
        None \<Rightarrow> None
      | Some d \<Rightarrow> if 10 * a + d < 2 ^ 64 then parse_digits (10 * a + d) cs else None)"

definition parse_usize :: "string \<Rightarrow> nat option" where
  "parse_usize s =
     (case s of
        [] \<Rightarrow> None
      | c # cs \<Rightarrow>
          if c = CHR ''+'' then (if cs = [] then None else parse_digits 0 cs)
          else parse_digits 0 (c # cs))"

lemma char_digit_digit_char [simp]: "d < 10 \<Longrightarrow> char_digit (digit_char d) = Some d"
  by (simp add: char_digit_def digit_char_def Let_def)

lemma parse_digits_append:
  "parse_digits a (s @ t) = (case parse_digits a s of None \<Rightarrow> None | Some b \<Rightarrow> parse_digits b t)"
  by (induction a s rule: parse_digits.induct) (auto split: option.splits)

lemma parse_digits_show_nat: "n < 2 ^ 64 \<Longrightarrow> parse_digits 0 (show_nat n) = Some n"
proof (induction n rule: show_nat.induct)
  case (1 n)
  show ?case
  proof (cases "n < 10")
    case True
    then show ?thesis by (subst show_nat.simps) simp
  next
    case False
    then have "n div 10 < 2 ^ 64" using 1(2) by (simp add: div_less_dividend order_le_less_trans [of "n div 10" n])
    with 1(1) False have "parse_digits 0 (show_nat (n div 10)) = Some (n div 10)" by simp
    with False 1(2) show ?thesis by (subst show_nat.simps) (simp add: parse_digits_append)
  qed
qed

lemma parse_digits_bound: "parse_digits a s = Some n \<Longrightarrow> a < 2 ^ 64 \<Longrightarrow> n < 2 ^ 64"
  by (induction a s rule: parse_digits.induct) (auto split: option.splits if_splits)

lemma show_nat_nonempty [simp]: "show_nat n \<noteq> []"
  by (subst show_nat.simps) simp

lemma digit_char_not_plus: "d < 10 \<Longrightarrow> digit_char d \<noteq> CHR ''+''"
  using char_digit_digit_char [of d] by (auto simp: char_digit_def Let_def split: if_splits)

lemma show_nat_hd: "hd (show_nat n) \<noteq> CHR ''+''"
proof (induction n rule: show_nat.induct)
  case (1 n)
  then show ?case by (subst show_nat.simps) (auto simp: digit_char_not_plus)
qed

lemma parse_usize_show_nat: "n < 2 ^ 64 \<Longrightarrow> parse_usize (show_nat n) = Some n"
  using parse_digits_show_nat [of n] show_nat_hd [of n]
  by (cases "show_nat n") (auto simp: parse_usize_def)

lemma parse_usize_bound: "parse_usize s = Some n \<Longrightarrow> n < 2 ^ 64"
  by (auto simp: parse_usize_def simp del: parse_digits.simps split: list.splits if_splits
      dest!: parse_digits_bound)

section \<open>Search and replacement\<close>

fun is_prefix :: "string \<Rightarrow> string \<Rightarrow> bool" where
  "is_prefix [] s = True"
| "is_prefix (p # ps) [] = False"
| "is_prefix (p # ps) (c # cs) = (p = c \<and> is_prefix ps cs)"

fun contains :: "string \<Rightarrow> string \<Rightarrow> bool" where
  "contains pat [] = (pat = [])"
| "contains pat (c # cs) = (is_prefix pat (c # cs) \<or> contains pat cs)"

text \<open>Replacement of every non-overlapping match, left to right, of a non-empty pattern.\<close>

function replace :: "string \<Rightarrow> string \<Rightarrow> string \<Rightarrow> string" where
  "replace pat new [] = []"
| "replace pat new (c # cs) =
     (if pat \<noteq> [] \<and> is_prefix pat (c # cs) then new @ replace pat new (drop (length pat) (c # cs))
      else c # replace pat new cs)"
  by pat_completeness auto
termination
  by (relation "measure (\<lambda>(pat, new, s). length s)") (auto simp: neq_Nil_conv)

declare replace.simps(2) [simp del]

lemma replace_absent: "\<not> contains pat s \<Longrightarrow> replace pat new s = s"
  by (induction s) (auto simp: replace.simps(2))

text \<open>
  If no character of the pattern occurs in the replacement, the result is free of the pattern.
\<close>

lemma is_prefix_replace:
  assumes "set ps \<inter> set new = {}" "new \<noteq> []"
  shows "is_prefix ps (replace pat new s) \<Longrightarrow> is_prefix ps s"
  using assms(1)
proof (induction ps arbitrary: s)
  case Nil
  then show ?case by simp
next
  case (Cons p ps)
  then obtain c cs where s: "s = c # cs" by (cases s) auto
  obtain n ns where n: "new = n # ns" using assms(2) by (cases new) auto
  show ?case
  proof (cases "pat \<noteq> [] \<and> is_prefix pat (c # cs)")
    case True
    with Cons.prems s n show ?thesis by (simp add: replace.simps(2))
  next
    case False
    with Cons.prems(1) s have "p = c" "is_prefix ps (replace pat new cs)"
      by (auto simp: replace.simps(2))
    with Cons.IH [of cs] Cons.prems(2) s show ?thesis by simp
  qed
qed

lemma contains_append_disjoint:
  assumes "set pat \<inter> set xs = {}" "pat \<noteq> []"
  shows "contains pat (xs @ ys) = contains pat ys"
  using assms
proof (induction xs)
  case Nil
  then show ?case by simp
next
  case (Cons x xs)
  then show ?case by (cases pat) auto
qed

lemma replace_removes:
  assumes "set pat \<inter> set new = {}" "pat \<noteq> []" "new \<noteq> []"
  shows "\<not> contains pat (replace pat new s)"
proof (induction "length s" arbitrary: s rule: less_induct)
  case less
  show ?case
  proof (cases s)
    case Nil
    with assms(2) show ?thesis by simp
  next
    case (Cons c cs)
    show ?thesis
    proof (cases "is_prefix pat (c # cs)")
      case True
      have "\<not> contains pat (replace pat new (drop (length pat) (c # cs)))"
        using assms(2) Cons by (intro less) (auto simp: neq_Nil_conv)
      with True assms Cons show ?thesis
        by (simp add: replace.simps(2) contains_append_disjoint)
    next
      case False
      have tail: "\<not> contains pat (replace pat new cs)" using Cons by (intro less) simp
      have eq: "replace pat new (c # cs) = c # replace pat new cs"
        using False by (simp add: replace.simps(2))
      have "\<not> is_prefix pat (replace pat new (c # cs))"
        using is_prefix_replace [OF assms(1,3), of pat "c # cs"] False by blast
      with tail show ?thesis by (simp add: Cons eq)
    qed
  qed
qed

end
