(* ===== verification/Stream_Config.thy ===== *)
theory Stream_Config
  imports Text_Format
begin

text \<open>
  What the two streaming processors read from their environment and derive from it before
  anything else runs. The environment is a partial map: \<open>env::var\<close> fails on a missing variable.
\<close>

type_synonym env = "string \<Rightarrow> string option"

definition unwrap_or :: "'a option \<Rightarrow> 'a \<Rightarrow> 'a" where
  "unwrap_or r d = (case r of None \<Rightarrow> d | Some x \<Rightarrow> x)"

definition var_is_ok :: "env \<Rightarrow> string \<Rightarrow> bool" where
  "var_is_ok e v = (case e v of None \<Rightarrow> False | Some _ \<Rightarrow> True)"

datatype acks = Acks_All | Acks_None

text \<open>Acknowledgement levels are ordered by what they guarantee.\<close>

instantiation acks :: linorder
begin

definition less_eq_acks :: "acks \<Rightarrow> acks \<Rightarrow> bool" where
  "less_eq_acks a b \<longleftrightarrow> a = Acks_None \<or> b = Acks_All"

definition less_acks :: "acks \<Rightarrow> acks \<Rightarrow> bool" where
  "less_acks a b \<longleftrightarrow> a = Acks_None \<and> b = Acks_All"

instance
proof
  fix a b c :: acks
  show "a < b \<longleftrightarrow> a \<le> b \<and> \<not> b \<le> a" "a \<le> a" "a \<le> b \<Longrightarrow> b \<le> c \<Longrightarrow> a \<le> c"
    "a \<le> b \<Longrightarrow> b \<le> a \<Longrightarrow> a = b" "a \<le> b \<or> b \<le> a"
    by (cases a; cases b; cases c; simp add: less_eq_acks_def less_acks_def)+
qed

end

section \<open>The krafka processor\<close>

record stream_config =
  bootstrap :: string
  num_workers :: nat
  acks_level :: acks
  idempotent :: bool
  load_phase :: bool
  input_topic :: string
  output_topic :: string
  is_benchmark :: bool

definition durable_acks :: "bool \<Rightarrow> acks" where
  "durable_acks is_durable = (if is_durable then Acks_All else Acks_None)"

lemma durable_acks_mono: "mono durable_acks"
  by (rule monoI) (auto simp: durable_acks_def less_eq_acks_def)

lemma durable_acks_top: "durable_acks d = Acks_All \<longleftrightarrow> d" "(a :: acks) \<le> Acks_All"
  by (simp_all add: durable_acks_def less_eq_acks_def)

text \<open>\<open>(p2_input, p2_output, is_benchmark)\<close>\<close>

definition phase2_topics :: "env \<Rightarrow> string \<times> string \<times> bool" where
  "phase2_topics e =
     (if var_is_ok e ''BENCHMARK''
      then (''integer-list-input-benchmark'', ''integer-sum-output-benchmark'', True)
      else (''integer-list-input'', ''integer-sum-output'', False))"

definition load_phase_runs :: "env \<Rightarrow> bool" where
  "load_phase_runs e \<longleftrightarrow> var_is_ok e ''BENCHMARK'' \<and> \<not> var_is_ok e ''SKIP_LOAD''"

definition read_config :: "env \<Rightarrow> stream_config res" where
  "read_config e =
     (let bs = unwrap_or (e ''BOOTSTRAP'') ''127.0.0.1:9094'' in
      and_then (expect_some ''NUM_WORKERS must be a number''
                  (parse_usize (unwrap_or (e ''NUM_WORKERS'') ''8''))) (\<lambda>n.
        let is_durable = var_is_ok e ''DURABLE'' in
        case phase2_topics e of (inp, out, bench) \<Rightarrow>
          Ok \<lparr>bootstrap = bs, num_workers = n, acks_level = durable_acks is_durable,
              idempotent = is_durable, load_phase = load_phase_runs e,
              input_topic = inp, output_topic = out, is_benchmark = bench\<rparr>))"

lemma parse_default_workers: "parse_usize ''8'' = Some 8"
  by (simp add: parse_usize_def char_digit_def)

lemma read_config_ok:
  "parse_usize (unwrap_or (e ''NUM_WORKERS'') ''8'') = Some n \<Longrightarrow>
   \<exists>c. read_config e = Ok c \<and> num_workers c = n \<and> bootstrap c = unwrap_or (e ''BOOTSTRAP'') ''127.0.0.1:9094''
     \<and> acks_level c = durable_acks (var_is_ok e ''DURABLE'') \<and> idempotent c = var_is_ok e ''DURABLE''
     \<and> load_phase c = load_phase_runs e
     \<and> (input_topic c, output_topic c, is_benchmark c) = phase2_topics e"
  by (cases "phase2_topics e") (simp add: read_config_def expect_some_def Let_def)

lemma read_config_err:
  "parse_usize (unwrap_or (e ''NUM_WORKERS'') ''8'') = None \<Longrightarrow>
   read_config e = Panic (Expect_failed ''NUM_WORKERS must be a number'')"
  by (simp add: read_config_def expect_some_def Let_def)

section \<open>The rdkafka processor\<close>

record stream_config_rd =
  bootstrap_servers :: string
  num_workers_rd :: nat
  load_phase_rd :: bool
  in_topic_rd :: string
  out_topic_rd :: string
  group_id_rd :: string

text \<open>
  \<open>format!("benchmark-rust-{}", Instant::now().elapsed().as_nanos())\<close>: the argument is the time
  that passed between the two calls.
\<close>

definition benchmark_group_id :: "nat \<Rightarrow> string" where
  "benchmark_group_id elapsed_nanos = ''benchmark-rust-'' @ show_nat elapsed_nanos"

definition read_config_rd :: "nat \<Rightarrow> env \<Rightarrow> stream_config_rd res" where
  "read_config_rd elapsed_nanos e =
     and_then (expect_some ''unwrap'' (parse_usize (unwrap_or (e ''NUM_WORKERS'') ''8''))) (\<lambda>n.
       Ok \<lparr>bootstrap_servers = unwrap_or (e ''KAFKA_BOOTSTRAP_SERVERS'') ''127.0.0.1:9094'',
           num_workers_rd = n, load_phase_rd = var_is_ok e ''BENCHMARK'',
           in_topic_rd = ''integer-list-input-benchmark'',
           out_topic_rd = ''integer-sum-output-benchmark'',
           group_id_rd = benchmark_group_id elapsed_nanos\<rparr>)"

section \<open>The endpoints\<close>

text \<open>Topics of the generators and printers: fixed in the krafka crate, from the environment in the other.\<close>

definition generator_topic :: string where
  "generator_topic = ''integer-list-input''"

definition printer_topic :: string where
  "printer_topic = ''integer-sum-output''"

definition generator_topic_rd :: "env \<Rightarrow> string" where
  "generator_topic_rd e = unwrap_or (e ''INPUT_TOPIC'') ''integer-list-input-avro''"

definition printer_topic_rd :: "env \<Rightarrow> string" where
  "printer_topic_rd e = unwrap_or (e ''OUTPUT_TOPIC'') ''integer-sum-output-avro''"

section \<open>Properties\<close>

text \<open>
  C39: The configuration of the krafka processor, variable by variable: it starts unless \<open>NUM_WORKERS\<close> is set to
  something that does not parse; a decimal number below 2^64 is taken as such, a missing one is 8; \<open>BOOTSTRAP\<close>
  names the servers; \<open>DURABLE\<close> decides both the acknowledgements and idempotence, so an idempotent producer
  always waits for all replicas; \<open>BENCHMARK\<close> decides the mode and with it both topics, and \<open>SKIP_LOAD\<close> leaves out
  the load phase of a benchmark.
\<close>

theorem krafka_config:
  assumes "e ''NUM_WORKERS'' \<in> {None, Some (show_nat n)}" "n < 2 ^ 64"
  shows "\<exists>c. read_config e = Ok c
    \<and> num_workers c = (if e ''NUM_WORKERS'' = None then 8 else n)
    \<and> bootstrap c = (case e ''BOOTSTRAP'' of None \<Rightarrow> ''127.0.0.1:9094'' | Some servers \<Rightarrow> servers)
    \<and> (idempotent c \<longleftrightarrow> e ''DURABLE'' \<noteq> None) \<and> (idempotent c \<longleftrightarrow> (\<forall>a. a \<le> acks_level c))
    \<and> (is_benchmark c \<longleftrightarrow> e ''BENCHMARK'' \<noteq> None)
    \<and> (load_phase c \<longleftrightarrow> e ''BENCHMARK'' \<noteq> None \<and> e ''SKIP_LOAD'' = None)
    \<and> (input_topic c, output_topic c)
      = (if e ''BENCHMARK'' \<noteq> None then (''integer-list-input-benchmark'', ''integer-sum-output-benchmark'')
         else (''integer-list-input'', ''integer-sum-output''))"
proof -
  let ?n = "if e ''NUM_WORKERS'' = None then 8 else n"
  have "parse_usize (unwrap_or (e ''NUM_WORKERS'') ''8'') = Some ?n"
    using assms by (auto simp: unwrap_or_def parse_default_workers parse_usize_show_nat)
  from read_config_ok [of e, OF this] obtain c where c: "read_config e = Ok c" "num_workers c = ?n"
    "bootstrap c = unwrap_or (e ''BOOTSTRAP'') ''127.0.0.1:9094''"
    "acks_level c = durable_acks (var_is_ok e ''DURABLE'')" "idempotent c = var_is_ok e ''DURABLE''"
    "load_phase c = load_phase_runs e" "(input_topic c, output_topic c, is_benchmark c) = phase2_topics e"
    by blast
  have set: "var_is_ok e v \<longleftrightarrow> e v \<noteq> None" for v by (simp add: var_is_ok_def split: option.split)
  have "idempotent c \<longleftrightarrow> (\<forall>a. a \<le> acks_level c)"
    using c(4,5) by (auto simp: durable_acks_def less_eq_acks_def)
  with c show ?thesis
    by (intro exI [of _ c]) (auto simp: set unwrap_or_def phase2_topics_def load_phase_runs_def split: if_splits)
qed

theorem krafka_config_witness:
  "\<exists>c. read_config [''NUM_WORKERS'' \<mapsto> show_nat 12, ''DURABLE'' \<mapsto> '''', ''BENCHMARK'' \<mapsto> ''''] = Ok c
    \<and> num_workers c = 12 \<and> bootstrap c = ''127.0.0.1:9094'' \<and> idempotent c \<and> Acks_All \<le> acks_level c
    \<and> is_benchmark c \<and> load_phase c \<and> input_topic c = ''integer-list-input-benchmark''"
  using krafka_config [of "[''NUM_WORKERS'' \<mapsto> show_nat 12, ''DURABLE'' \<mapsto> '''', ''BENCHMARK'' \<mapsto> '''']" 12]
  by fastforce

text \<open>
  The topics of the streaming programs fit together in the krafka crate exactly when \<open>BENCHMARK\<close> is
  not set, and never by default in the rdkafka crate, whose processor only knows the benchmark topics.
\<close>

lemma topics_line_up:
  "((generator_topic, printer_topic, False) = phase2_topics e \<longleftrightarrow> \<not> var_is_ok e ''BENCHMARK'')
   \<and> (case read_config_rd k Map.empty of
        Inl _ \<Rightarrow> False
      | Inr c \<Rightarrow> in_topic_rd c \<noteq> generator_topic_rd Map.empty \<and> out_topic_rd c \<noteq> printer_topic_rd Map.empty)"
  by (simp add: phase2_topics_def generator_topic_def printer_topic_def generator_topic_rd_def
      printer_topic_rd_def read_config_rd_def unwrap_or_def parse_default_workers expect_some_def)

end
