(* ===== verification/Reporting.thy ===== *)
theory Reporting
  imports Prelude Machine
begin

text \<open>
  The reporter threads of the streaming programs and the final result lines: the progress
  percentage, the elapsed time, and the throughput counter of the rdkafka producer, which the
  sending loop increments and the reporter takes and resets. Floating-point formatting of the
  last lines is not modelled; the durations stay in integer nanoseconds.
\<close>

section \<open>Progress\<close>

datatype progress_line =
    Percent u64 u64 u64
  | Count u64

definition benchmark_total :: u64 where
  "benchmark_total = 50000000"

text \<open>The body of a tick of the krafka reporter, after the sleep, for the counter it has loaded.\<close>

definition progress :: "profile \<Rightarrow> bool \<Rightarrow> u64 \<Rightarrow> progress_line option res" where
  "progress pf is_bench c =
     (if 0 < c
      then if is_bench
           then and_then (mul_u64 pf c 100) (\<lambda>p. Ok (Some (Percent (p div benchmark_total) c benchmark_total)))
           else Ok (Some (Count c))
      else Ok None)"

text \<open>
  The reporter's loop. Each tick is the value of the stop flag when it is tested and that of the
  counter after the sleep; the list is what the thread gets to see.
\<close>

fun reporter :: "profile \<Rightarrow> bool \<Rightarrow> (u64 \<times> u64) list \<Rightarrow> progress_line list res" where
  "reporter pf is_bench [] = Ok []"
| "reporter pf is_bench ((stop, c) # ticks) =
     (if stop = 0
      then and_then (progress pf is_bench c) (\<lambda>line.
             and_then (reporter pf is_bench ticks) (\<lambda>lines.
               Ok (case line of None \<Rightarrow> lines | Some l \<Rightarrow> l # lines)))
      else Ok [])"

text \<open>
  The rdkafka reporter tests the counter too, and only knows the percentage line; a tick holds
  the counter at the test, the stop flag and the counter after the sleep.
\<close>

fun reporter_rd :: "profile \<Rightarrow> (u64 \<times> u64 \<times> u64) list \<Rightarrow> progress_line list res" where
  "reporter_rd pf [] = Ok []"
| "reporter_rd pf ((seen, stop, c) # ticks) =
     (if seen < benchmark_total \<and> stop = 0
      then and_then (progress pf True c) (\<lambda>line.
             and_then (reporter_rd pf ticks) (\<lambda>lines.
               Ok (case line of None \<Rightarrow> lines | Some l \<Rightarrow> l # lines)))
      else Ok [])"

lemma unat_benchmark_total: "unat benchmark_total = 50000000"
  by (simp add: benchmark_total_def)

lemma mul_u64_in_range:
  "unat a * unat b < 2 ^ 64 \<Longrightarrow> mul_u64 pf a b = Ok (a * b) \<and> unat (a * b) = unat a * unat b"
  by (simp add: mul_u64_def unat_word_ariths)

lemma progress_percent:
  assumes "0 < c" "unat c * 100 < 2 ^ 64"
  shows "\<exists>p. progress pf True c = Ok (Some (Percent p c benchmark_total))
    \<and> unat p = unat c * 100 div 50000000"
proof -
  have "mul_u64 pf c 100 = Ok (c * 100)" "unat (c * 100) = unat c * 100"
    using mul_u64_in_range [of c 100 pf] assms(2) by simp_all
  with assms(1) show ?thesis by (simp add: progress_def unat_div unat_benchmark_total)
qed

lemma progress_overflow:
  "2 ^ 64 \<le> unat c * 100 \<Longrightarrow> progress Debug True c = Panic Mul_overflow"
  by (auto simp: progress_def mul_u64_def word_gt_0)

lemma reporter_stops: "stop \<noteq> 0 \<Longrightarrow> reporter pf b ((stop, c) # ticks) = Ok []"
  by simp

text \<open>Below the point where the percentage overflows no tick panics, whatever the ticks are.\<close>

lemma progress_ok: "unat c * 100 < 2 ^ 64 \<Longrightarrow> is_ok (progress pf b c)"
  using progress_percent [of c pf] by (cases "0 < c"; cases b) (auto simp: progress_def)

lemma reporter_ok:
  "list_all (\<lambda>(stop, c). unat c * 100 < 2 ^ 64) ticks \<Longrightarrow> is_ok (reporter pf b ticks)"
proof (induction ticks)
  case Nil
  then show ?case by simp
next
  case (Cons t ticks)
  obtain stop c where t: "t = (stop, c)" by (cases t)
  from Cons obtain ls where "reporter pf b ticks = Ok ls"
    by (cases "reporter pf b ticks") auto
  moreover from Cons.prems t progress_ok [of c pf b] obtain l where "progress pf b c = Ok l"
    by (cases "progress pf b c") auto
  ultimately show ?case by (simp add: t)
qed

section \<open>Elapsed time\<close>

text \<open>
  \<open>if start > 0 { (end_nanos - start) as f64 / 1e9 } else { 1.0 }\<close>: the nanoseconds, or \<open>None\<close> for the
  default of one second. The clock reading is the parameter \<open>end_nanos\<close>.
\<close>

definition elapsed_nanos :: "profile \<Rightarrow> u64 \<Rightarrow> u64 \<Rightarrow> u64 option res" where
  "elapsed_nanos pf start end_nanos =
     (if 0 < start then and_then (sub_u64 pf end_nanos start) (\<lambda>d. Ok (Some d)) else Ok None)"

lemma elapsed_nanos_exact:
  assumes "0 < start" "start \<le> end_nanos"
  shows "\<exists>d. elapsed_nanos pf start end_nanos = Ok (Some d) \<and> unat d = unat end_nanos - unat start"
  using assms by (simp add: elapsed_nanos_def sub_u64_def unat_sub not_less)

section \<open>The throughput counter of the rdkafka producer\<close>

text \<open>
  \<open>SEND_COUNTER\<close>, incremented after each send and swapped with 0 by the reporter every five
  seconds; \<open>swapped\<close> holds what the swaps returned, \<open>sends\<close> the number of sends, \<open>reports\<close> the
  printed rates.
\<close>

record throughput =
  send_counter :: u64
  sends :: nat
  swapped :: "u64 list"
  reports :: "u64 list"

definition throughput_init :: throughput where
  "throughput_init = \<lparr>send_counter = 0, sends = 0, swapped = [], reports = []\<rparr>"

definition count_send :: "throughput \<Rightarrow> throughput" where
  "count_send t = t\<lparr>send_counter := send_counter t + 1, sends := Suc (sends t)\<rparr>"

definition report_tick :: "throughput \<Rightarrow> throughput" where
  "report_tick t =
     (let cnt = send_counter t
      in t\<lparr>send_counter := 0, swapped := swapped t @ [cnt],
           reports := (if 0 < cnt then reports t @ [cnt div 5] else reports t)\<rparr>)"

inductive throughput_step :: "throughput \<Rightarrow> throughput \<Rightarrow> bool" where
  sender: "throughput_step t (count_send t)"
| ticker: "throughput_step t (report_tick t)"

inductive_cases throughput_stepE [elim!]: "throughput_step t t'"

definition throughput_inv :: "throughput \<Rightarrow> bool" where
  "throughput_inv t \<longleftrightarrow>
     sum_list (swapped t) + send_counter t = of_nat (sends t)
     \<and> reports t = map (\<lambda>cnt. cnt div 5) (filter (\<lambda>cnt. 0 < cnt) (swapped t))"

interpretation throughput: invariant_machine "\<lambda>t. t = throughput_init" throughput_step throughput_inv
  by unfold_locales
    (auto simp: throughput_inv_def throughput_init_def count_send_def report_tick_def Let_def
      algebra_simps)

section \<open>The final report\<close>

text \<open>
  After the join, in benchmark mode only: the clock (\<open>None\<close> before the epoch, an \<open>unwrap\<close>), then the elapsed
  time since \<open>START_NANOS\<close>. Outside benchmark mode nothing is reported.
\<close>

definition final_report :: "profile \<Rightarrow> bool \<Rightarrow> u64 option \<Rightarrow> u64 \<Rightarrow> u64 option option res" where
  "final_report pf is_bench clock start =
     (if is_bench
      then and_then (expect_some ''SystemTimeError'' clock) (\<lambda>end_nanos.
             and_then (elapsed_nanos pf start end_nanos) (\<lambda>d. Ok (Some d)))
      else Ok None)"

text \<open>
  The lines printed with it. \<open>f64\<close> is a type parameter with the operations that the code uses: the cast of
  a \<open>u64\<close>, division, and the literals 1e9 and 1.0. The rdkafka processor has its duration from an \<open>Instant\<close>
  and no default.
\<close>

record 'f f64_ops =
  f64_of_u64 :: "u64 \<Rightarrow> 'f"
  f64_div :: "'f \<Rightarrow> 'f \<Rightarrow> 'f"
  f64_billion :: 'f
  f64_one :: 'f

datatype 'f result_line =
    Total_records u64
  | Processing_time 'f
  | Throughput 'f

definition duration_secs :: "'f f64_ops \<Rightarrow> u64 option \<Rightarrow> 'f" where
  "duration_secs fl d =
     (case d of
        Some nanos \<Rightarrow> f64_div fl (f64_of_u64 fl nanos) (f64_billion fl)
      | None \<Rightarrow> f64_one fl)"

definition result_lines :: "'f f64_ops \<Rightarrow> 'f \<Rightarrow> 'f result_line list" where
  "result_lines fl secs =
     [Total_records benchmark_total, Processing_time secs,
      Throughput (f64_div fl (f64_of_u64 fl benchmark_total) secs)]"

definition final_lines :: "profile \<Rightarrow> 'f f64_ops \<Rightarrow> bool \<Rightarrow> u64 option \<Rightarrow> u64 \<Rightarrow> 'f result_line list res" where
  "final_lines pf fl is_bench clock start =
     and_then (final_report pf is_bench clock start) (\<lambda>report.
       Ok (case report of None \<Rightarrow> [] | Some d \<Rightarrow> result_lines fl (duration_secs fl d)))"

lemma final_lines_total:
  "final_lines pf fl True clock start = Ok lines \<Longrightarrow>
   \<exists>secs. lines = result_lines fl secs \<and> hd lines = Total_records benchmark_total"
  by (auto simp: final_lines_def final_report_def result_lines_def)

lemma final_lines_quiet: "final_lines pf fl False clock start = Ok []"
  by (simp add: final_lines_def final_report_def)

section \<open>Properties\<close>

text \<open>
  The progress line of the krafka reporter shows the exact percentage, at most 100 until the counter
  passes the total, and no tick of the reporter can panic for any counter that fifty million records (or
  three thousand million times as many) can reach.
\<close>

lemma progress_exact:
  assumes "0 < c" "unat c \<le> 184467440737095516"
  shows "\<exists>p. progress pf True c = Ok (Some (Percent p c benchmark_total))
    \<and> unat p = unat c * 100 div 50000000 \<and> (unat c \<le> 50000000 \<longrightarrow> unat p \<le> 100)"
proof -
  from assms(2) have "unat c * 100 < 2 ^ 64" by simp
  from progress_percent [OF assms(1) this, of pf] obtain p
    where p: "progress pf True c = Ok (Some (Percent p c benchmark_total))"
      "unat p = unat c * 100 div 50000000" by blast
  moreover have "unat p \<le> 100" if "unat c \<le> 50000000" using that p(2) by simp
  ultimately show ?thesis by blast
qed

lemma progress_exact_witness:
  "\<exists>p. progress Debug True 25000000 = Ok (Some (Percent p 25000000 benchmark_total)) \<and> unat p = 50"
  using progress_exact [of 25000000 Debug] by auto

text \<open>
  In benchmark mode the report gives the nanoseconds from the first polled record to the join; without
  a start the default, outside benchmark mode nothing.
\<close>

lemma report_elapsed:
  assumes "0 < start" "start \<le> end_nanos"
  shows "\<exists>d. final_report pf True (Some end_nanos) start = Ok (Some (Some d))
    \<and> unat d = unat end_nanos - unat start
    \<and> final_report pf True (Some end_nanos) 0 = Ok (Some None) \<and> final_report pf False clock start = Ok None"
  using elapsed_nanos_exact [OF assms, of pf]
  by (auto simp: final_report_def expect_some_def elapsed_nanos_def)

text \<open>
  C40: No send is lost or counted twice by the throughput reporter of the rdkafka producer: in whatever
  order sends and ticks fall, what the ticks took out and what is still in the counter add up to the
  number of sends, and what was printed is a fifth of each non-zero amount taken.
\<close>

theorem throughput_conserved:
  assumes "reachable (\<lambda>t. t = throughput_init) throughput_step t"
  shows "sum_list (swapped t) + send_counter t = of_nat (sends t)
    \<and> reports t = map (\<lambda>cnt. cnt div 5) (filter (\<lambda>cnt. 0 < cnt) (swapped t))"
  using throughput.reachable_inv [OF assms] by (simp add: throughput_inv_def)

theorem throughput_conserved_witness:
  "sum_list (swapped (report_tick (count_send throughput_init)))
     + send_counter (report_tick (count_send throughput_init))
     = of_nat (sends (report_tick (count_send throughput_init)))
   \<and> reports (report_tick (count_send throughput_init))
     = map (\<lambda>cnt. cnt div 5) (filter (\<lambda>cnt. 0 < cnt) (swapped (report_tick (count_send throughput_init))))"
proof (rule throughput_conserved)
  have "reachable (\<lambda>t. t = throughput_init) throughput_step (count_send throughput_init)"
    by (rule reachable_step, rule reachable_init, rule refl, rule sender)
  then show "reachable (\<lambda>t. t = throughput_init) throughput_step (report_tick (count_send throughput_init))"
    by (rule reachable_step) (rule ticker)
qed

end
