(* ===== verification/Krafka_Main.thy ===== *)
theory Krafka_Main
  imports Krafka_Termination Krafka_Loader Stream_Config Reporting
begin

text \<open>
  The krafka processor as one program: configuration, load phase, workers, final report, composed as
  \<open>main\<close> composes them. All that comes from outside is a field of \<open>outside\<close>, the interleaving of the workers
  is a list of labels. The reporter thread only reads the counter and is not part of the composition; it is
  the function \<open>reporter\<close>.
\<close>

record 'f outside =
  out_env :: env
  out_load :: load_setup
  out_answers :: "description list option list"
  out_draws :: "nat \<Rightarrow> i64 list \<times> nat"
  out_completions :: "nat list"
  out_workers :: "nat \<Rightarrow> worker_setup"
  out_schedule :: "(nat \<times> worker_event) list"
  out_clock :: "u64 option"
  out_f64 :: "'f f64_ops"

text \<open>
  How a run stands: it has panicked, it is in the load phase or in phase 2 (or the schedule names a step
  that is not possible), or \<open>main\<close> has returned after printing its lines.
\<close>

datatype 'f outcome =
    Panicked panic
  | Loading
  | Processing
  | Returned "loader option" system "'f result_line list"

definition run_load_phase :: "'f outside \<Rightarrow> stream_config \<Rightarrow> loader option option res" where
  "run_load_phase out c =
     (if load_phase c
      then and_then (phase1 (out_load out) (num_workers c) (out_answers out) (out_draws out) (out_completions out))
             (\<lambda>l. Ok (map_option Some l))
      else Ok (Some None))"

definition run_phase2 :: "profile \<Rightarrow> 'f outside \<Rightarrow> stream_config \<Rightarrow> system option" where
  "run_phase2 pf out c =
     exec (system_step_of pf) (out_schedule out)
       (globals_init, spawn_workers (out_workers out) (num_workers c))"

definition krafka_main :: "profile \<Rightarrow> 'f outside \<Rightarrow> 'f outcome" where
  "krafka_main pf out =
     (case read_config (out_env out) of
        Inl p \<Rightarrow> Panicked p
      | Inr c \<Rightarrow>
          (case run_load_phase out c of
             Inl p \<Rightarrow> Panicked p
           | Inr None \<Rightarrow> Loading
           | Inr (Some loaded) \<Rightarrow>
               (case run_phase2 pf out c of
                  None \<Rightarrow> Processing
                | Some s \<Rightarrow>
                    if \<not> all_joined s then Processing
                    else (case final_lines pf (out_f64 out) (is_benchmark c) (out_clock out) (start_nanos (fst s)) of
                            Inl p \<Rightarrow> Panicked p
                          | Inr lines \<Rightarrow> Returned loaded s lines))))"

lemma krafka_main_Returned:
  assumes "krafka_main pf out = Returned loaded s lines"
  shows "\<exists>c. read_config (out_env out) = Ok c \<and> run_load_phase out c = Ok (Some loaded)
    \<and> run_phase2 pf out c = Some s \<and> all_joined s
    \<and> final_lines pf (out_f64 out) (is_benchmark c) (out_clock out) (start_nanos (fst s)) = Ok lines"
  using assms by (auto simp: krafka_main_def split: sum.splits option.splits if_splits)

lemma run_phase2_reachable:
  "run_phase2 pf out c = Some s \<Longrightarrow>
   reachable (system_init (out_workers out) (num_workers c)) (system_step pf) s"
  unfolding run_phase2_def by (rule system_run)

lemma run_load_phase_loads:
  "run_load_phase out c = Ok (Some (Some l)) \<Longrightarrow>
   submitted l = records_drawn (out_draws out) \<and> mset (completed l) = mset (submitted l)"
  by (auto simp: run_load_phase_def split: if_splits dest!: phase1_complete)

lemma run_load_phase_iff:
  "run_load_phase out c = Ok (Some loaded) \<Longrightarrow> loaded \<noteq> None \<longleftrightarrow> load_phase c"
  by (auto simp: run_load_phase_def split: if_splits)

lemma read_config_load:
  "read_config e = Ok c \<Longrightarrow> (load_phase c \<longleftrightarrow> load_phase_runs e) \<and> (is_benchmark c \<longleftrightarrow> var_is_ok e ''BENCHMARK'')"
  by (auto simp: read_config_def phase2_topics_def Let_def split: if_splits)

section \<open>Runs with one worker\<close>

text \<open>The world of a benchmark run of one worker, given whether it loads first, what the loader awaits, and a schedule.\<close>

definition load_succeeds :: load_setup where
  "load_succeeds = \<lparr>load_runtime_ok = True, admin_ok = True, delete_ok = True, spec_ok = (\<lambda>_ _. True),
     create_ok = True, load_producer_ok = True, flush_ok = True\<rparr>"

definition bench_outside ::
  "'f f64_ops \<Rightarrow> bool \<Rightarrow> nat list \<Rightarrow> (nat \<times> worker_event) list \<Rightarrow> 'f outside"
where
  "bench_outside fl loads completions labs =
     \<lparr>out_env = (if loads then [''BENCHMARK'' \<mapsto> '''', ''NUM_WORKERS'' \<mapsto> ''1'']
                 else [''BENCHMARK'' \<mapsto> '''', ''SKIP_LOAD'' \<mapsto> '''', ''NUM_WORKERS'' \<mapsto> ''1'']),
      out_load = load_succeeds,
      out_answers = [None, Some (map (\<lambda>t. (t, [0])) benchmark_topics)],
      out_draws = (\<lambda>k. ([3, 4], 0)), out_completions = completions, out_workers = (\<lambda>_. setup_succeeds),
      out_schedule = labs, out_clock = Some 1000, out_f64 = fl\<rparr>"

definition bench_config :: "bool \<Rightarrow> stream_config" where
  "bench_config loads =
     \<lparr>bootstrap = ''127.0.0.1:9094'', num_workers = 1, acks_level = Acks_None, idempotent = False,
      load_phase = loads, input_topic = ''integer-list-input-benchmark'',
      output_topic = ''integer-sum-output-benchmark'', is_benchmark = True\<rparr>"

definition bench_lines :: "'f f64_ops \<Rightarrow> 'f result_line list" where
  "bench_lines fl = result_lines fl (duration_secs fl (Some 993))"

lemma bench_read_config: "read_config (out_env (bench_outside fl loads cs labs)) = Ok (bench_config loads)"
  by (simp add: bench_outside_def bench_config_def read_config_def phase2_topics_def load_phase_runs_def
      var_is_ok_def unwrap_or_def durable_acks_def expect_some_def parse_usize_def char_digit_def)

lemma bench_main:
  assumes "exec (system_step_of Debug) labs (globals_init, spawn_workers (\<lambda>_. setup_succeeds) 1) = Some s"
    and "all_joined s" "start_nanos (fst s) = 7"
    and "run_load_phase (bench_outside fl loads cs labs) (bench_config loads) = Ok (Some loaded)"
  shows "krafka_main Debug (bench_outside fl loads cs labs) = Returned loaded s (bench_lines fl)"
proof -
  have "run_phase2 Debug (bench_outside fl loads cs labs) (bench_config loads) = Some s"
    using assms(1) by (simp add: run_phase2_def bench_outside_def bench_config_def)
  moreover have "final_lines Debug (out_f64 (bench_outside fl loads cs labs)) True
      (out_clock (bench_outside fl loads cs labs)) 7 = Ok (bench_lines fl)"
    by (simp add: bench_outside_def final_lines_def final_report_def expect_some_def elapsed_nanos_def sub_u64_def
        bench_lines_def)
  moreover have "is_benchmark (bench_config loads)" by (simp add: bench_config_def)
  ultimately show ?thesis using assms(2-4) by (simp add: krafka_main_def bench_read_config)
qed

lemma bench_no_load: "run_load_phase (bench_outside fl False cs labs) (bench_config False) = Ok (Some None)"
  by (simp add: run_load_phase_def bench_config_def)

lemma bench_loads:
  "\<exists>cs l. run_load_phase (bench_outside fl True cs labs) (bench_config True) = Ok (Some (Some l))"
proof -
  have "wait_ready 1 [None, Some (map (\<lambda>t. (t, [0 :: i32])) benchmark_topics)] \<noteq> None" by code_simp
  then obtain cs l where "phase1 load_succeeds 1 [None, Some (map (\<lambda>t. (t, [0])) benchmark_topics)]
      (\<lambda>k. ([3, 4], 0)) cs = Ok (Some l)"
    using phase1_ends [where su = load_succeeds and xss = "\<lambda>_. [3, 4]"]
    by (fastforce simp: load_succeeds_def benchmark_topics_def)
  then show ?thesis
    by (intro exI [of _ cs] exI [of _ l]) (simp add: run_load_phase_def bench_outside_def bench_config_def)
qed

text \<open>
  Two variants of the sample run: the only record has no value, and the only send ends with an error.
\<close>

definition tombstone_labels :: "(nat \<times> worker_event) list" where
  "tombstone_labels = map (Pair 0)
     [Consume Check_counter, Consume (Poll_ok [None]), Consume Load_start, Consume (Cas_start (Some 7)),
      Consume Next_record, Consume Next_record, Consume Check_counter, Consume (Poll_ok []),
      Consume Check_counter, Consume (Poll_ok []), Consume Check_counter, Consume (Poll_ok []),
      Produce Recv, Produce Task_exit, Consume Join]"

definition rejected_labels :: "(nat \<times> worker_event) list" where
  "rejected_labels = sample_labels[9 := (0, Produce (Complete 0 False))]"

definition run_of :: "(nat \<times> worker_event) list \<Rightarrow> system" where
  "run_of labs = the (exec (system_step_of Debug) labs (globals_init, spawn_workers (\<lambda>_. setup_succeeds) 1))"

lemma run_of:
  "exec (system_step_of Debug) labs (globals_init, spawn_workers (\<lambda>_. setup_succeeds) 1) \<noteq> None \<Longrightarrow>
   exec (system_step_of Debug) labs (globals_init, spawn_workers (\<lambda>_. setup_succeeds) 1) = Some (run_of labs)"
  by (auto simp: run_of_def)

lemma variants_run:
  "exec (system_step_of Debug) tombstone_labels (globals_init, spawn_workers (\<lambda>_. setup_succeeds) 1) \<noteq> None"
  "exec (system_step_of Debug) rejected_labels (globals_init, spawn_workers (\<lambda>_. setup_succeeds) 1) \<noteq> None"
  by code_simp+

lemma runs_end:
  "all_joined (run_of sample_labels)" "start_nanos (fst (run_of sample_labels)) = 7"
  "all_joined (run_of tombstone_labels)" "start_nanos (fst (run_of tombstone_labels)) = 7"
  "all_joined (run_of rejected_labels)" "start_nanos (fst (run_of rejected_labels)) = 7"
  by code_simp+

lemma tombstone_outcome:
  "processed (fst (run_of tombstone_labels)) = 0" "map sent (snd (run_of tombstone_labels)) = [[]]"
  by code_simp+

lemma sample_outcome:
  "processed (fst (run_of sample_labels)) = 1" "map sent (snd (run_of sample_labels)) = [[write_varint [] 7]]"
  "map rejected (snd (run_of sample_labels)) = [[]]"
  by code_simp+

lemma rejected_outcome:
  "processed (fst (run_of rejected_labels)) = 1"
  "map rejected (snd (run_of rejected_labels)) = [[write_varint [] 7]]"
  by code_simp+

section \<open>Properties\<close>

text \<open>
  C7: What it means that \<open>main\<close> has returned: the load phase ran exactly if \<open>BENCHMARK\<close> is set and \<open>SKIP_LOAD\<close> is
  not, and has then submitted its fifty million drawn records, each send completed; every worker that was
  not taken down by a panic has sent the output of each record it was given, and each of these sends has
  completed, well or with an error; if none was taken down, the counter is the number of those outputs; and the
  result is printed in benchmark mode only.
\<close>

theorem main_returned:
  assumes "krafka_main pf out = Returned loaded s lines"
  shows "(case loaded of
        None \<Rightarrow> \<not> (var_is_ok (out_env out) ''BENCHMARK'' \<and> \<not> var_is_ok (out_env out) ''SKIP_LOAD'')
      | Some l \<Rightarrow> var_is_ok (out_env out) ''BENCHMARK'' \<and> \<not> var_is_ok (out_env out) ''SKIP_LOAD''
          \<and> submitted l = records_drawn (out_draws out) \<and> length (submitted l) = 50000000
          \<and> mset (completed l) = mset (submitted l))
    \<and> list_all (\<lambda>w. is_crashed (phase w)
        \<or> sent w = outputs pf (polled w) \<and> mset (settled w) = mset (outputs pf (polled w))) (snd s)
    \<and> (list_all (\<lambda>w. phase w = Finished) (snd s) \<longrightarrow>
        processed (fst s) = of_nat (\<Sum>w \<leftarrow> snd s. length (outputs pf (polled w))))
    \<and> (lines \<noteq> [] \<longleftrightarrow> var_is_ok (out_env out) ''BENCHMARK'')"
proof -
  obtain c where c: "read_config (out_env out) = Ok c" "run_load_phase out c = Ok (Some loaded)"
    "run_phase2 pf out c = Some s" "all_joined s"
    "final_lines pf (out_f64 out) (is_benchmark c) (out_clock out) (start_nanos (fst s)) = Ok lines"
    using krafka_main_Returned [OF assms] by blast
  obtain g ws where s: "s = (g, ws)" by (cases s)
  note r = run_phase2_reachable [OF c(3), unfolded s] and conf = read_config_load [OF c(1)]
  have lines: "lines \<noteq> [] \<longleftrightarrow> is_benchmark c"
    using c(5) final_lines_total [of pf "out_f64 out" "out_clock out" "start_nanos (fst s)" lines]
    by (cases "is_benchmark c") (auto simp: final_lines_quiet result_lines_def)
  have "sent w = outputs pf (polled w) \<and> mset (settled w) = mset (outputs pf (polled w))"
    if "w \<in> set ws" "\<not> is_crashed (phase w)" for w
    using finished_pipeline [OF reachable_worker_inv [OF r that(1)]] that c(4)
    by (auto simp: all_joined_def s list_all_iff)
  moreover have "processed g = of_nat (\<Sum>w \<leftarrow> ws. length (outputs pf (polled w)))"
    if "list_all (\<lambda>w. phase w = Finished) ws"
  proof -
    have "list_all (\<lambda>w. worker_inv pf w \<and> phase w = Finished) ws"
      using reachable_worker_inv [OF r] that by (simp add: list_all_iff)
    with reachable_processed [OF r] total_flushed_finished show ?thesis by simp
  qed
  moreover have "case loaded of
        None \<Rightarrow> \<not> load_phase_runs (out_env out)
      | Some l \<Rightarrow> load_phase_runs (out_env out) \<and> submitted l = records_drawn (out_draws out)
          \<and> length (submitted l) = 50000000 \<and> mset (completed l) = mset (submitted l)"
    using c(2) run_load_phase_loads [of out c] run_load_phase_iff [OF c(2)] conf records_drawn_length [of "out_draws out"]
    by (auto split: option.splits)
  ultimately show ?thesis using lines conf by (auto simp: s list_all_iff load_phase_runs_def split: option.splits)
qed

theorem main_returned_witness:
  "\<forall>fl. \<exists>cs l lines. krafka_main Debug (bench_outside fl True cs sample_labels)
      = Returned (Some l) (run_of sample_labels) lines
    \<and> length (submitted l) = 50000000 \<and> mset (completed l) = mset (submitted l) \<and> lines \<noteq> []
    \<and> list_all (\<lambda>w. sent w = [write_varint [] 7] \<and> mset (settled w) = {#write_varint [] 7#}) (snd (run_of sample_labels))
    \<and> processed (fst (run_of sample_labels)) = 1"
proof
  fix fl :: "'f f64_ops"
  obtain cs l where "run_load_phase (bench_outside fl True cs sample_labels) (bench_config True) = Ok (Some (Some l))"
    using bench_loads by blast
  note run = bench_main [OF run_of [OF sample_runs] runs_end(1,2) this]
  have "list_all (\<lambda>w. phase w = Finished \<and> outputs Debug (polled w) = [write_varint [] 7]) (snd (run_of sample_labels))"
    "(\<Sum>w \<leftarrow> snd (run_of sample_labels). length (outputs Debug (polled w))) = 1"
    by code_simp+
  with main_returned [OF run] run show "\<exists>cs l lines. krafka_main Debug (bench_outside fl True cs sample_labels)
      = Returned (Some l) (run_of sample_labels) lines
    \<and> length (submitted l) = 50000000 \<and> mset (completed l) = mset (submitted l) \<and> lines \<noteq> []
    \<and> list_all (\<lambda>w. sent w = [write_varint [] 7] \<and> mset (settled w) = {#write_varint [] 7#}) (snd (run_of sample_labels))
    \<and> processed (fst (run_of sample_labels)) = 1"
    by (intro exI [of _ cs] exI [of _ l] exI [of _ "bench_lines fl"])
      (auto simp: list_all_iff bench_outside_def var_is_ok_def)
qed

text \<open>
  C23: The benchmark result does not depend on what was processed. Three runs of one worker print the same lines,
  fifty million records with a throughput to match: one that was given a record without a value and
  processed nothing, one that processed one record, and one whose only send failed, which counts it as
  processed all the same.
\<close>

theorem result_ignores_count:
  fixes fl :: "'f f64_ops"
  shows "\<exists>nothing one failed lines.
    krafka_main Debug (bench_outside fl False [] tombstone_labels) = Returned None nothing lines
    \<and> krafka_main Debug (bench_outside fl False [] sample_labels) = Returned None one lines
    \<and> krafka_main Debug (bench_outside fl False [] rejected_labels) = Returned None failed lines
    \<and> hd lines = Total_records 50000000
    \<and> processed (fst nothing) = 0 \<and> map sent (snd nothing) = [[]]
    \<and> processed (fst one) = 1 \<and> map sent (snd one) = [[write_varint [] 7]] \<and> map rejected (snd one) = [[]]
    \<and> processed (fst failed) = 1 \<and> map rejected (snd failed) = [[write_varint [] 7]]"
proof (intro exI conjI)
  show "krafka_main Debug (bench_outside fl False [] tombstone_labels)
      = Returned None (run_of tombstone_labels) (bench_lines fl)"
    by (rule bench_main [OF run_of [OF variants_run(1)] runs_end(3,4) bench_no_load])
  show "krafka_main Debug (bench_outside fl False [] sample_labels)
      = Returned None (run_of sample_labels) (bench_lines fl)"
    by (rule bench_main [OF run_of [OF sample_runs] runs_end(1,2) bench_no_load])
  show "krafka_main Debug (bench_outside fl False [] rejected_labels)
      = Returned None (run_of rejected_labels) (bench_lines fl)"
    by (rule bench_main [OF run_of [OF variants_run(2)] runs_end(5,6) bench_no_load])
  show "hd (bench_lines fl) = Total_records 50000000"
    by (simp add: bench_lines_def result_lines_def benchmark_total_def)
qed (rule tombstone_outcome sample_outcome rejected_outcome)+

text \<open>
  C28: Partitions and workers fit together below 2^31 workers: the load phase asks for one partition per
  worker in both topics; in every state of phase 2 the consumer of worker \<open>i\<close>, if its set-up succeeded, is
  assigned partition \<open>i\<close> and has been set to its offset 0; and if all of them succeeded, each of the partitions
  asked for is assigned to exactly one worker.
\<close>

theorem partitions_covered:
  assumes "n < 2 ^ 31" "prepare_topics adm del spec cre n = Ok requests"
    and "reachable (system_init su n) (system_step pf) (g, ws)"
  shows "requests = [Delete_topics benchmark_topics, Create_topics (map (\<lambda>t. (t, of_nat n, 1)) benchmark_topics)]
    \<and> sint (of_nat n :: i32) = int n
    \<and> list_all (\<lambda>i. is_ok (start_worker (su i) (of_nat i)) \<longrightarrow>
        map sint (assigned (ws ! i)) = [int i] \<and> map (\<lambda>(p, off). (sint p, sint off)) (seeks (ws ! i)) = [(int i, 0)])
      [0..<n]
    \<and> (list_all (\<lambda>i. is_ok (start_worker (su i) (of_nat i))) [0..<n] \<longrightarrow>
        concat (map (map sint \<circ> assigned) ws) = map int [0..<n])"
proof -
  have part: "sint (worker_partition (of_nat i)) = int i" if "i < n" for i
  proof -
    have "worker_partition (of_nat i) = of_nat i"
      using that assms(1) by (simp add: worker_partition_def word_unat_eq_iff unsigned_ucast_eq unsigned_of_nat
          take_bit_nat_eq_self)
    then show ?thesis using that assms(1) by (simp add: signed_of_nat signed_take_bit_int_eq_self)
  qed
  have started: "map sint (assigned (ws ! i)) = [int i] \<and> map (\<lambda>(p, off). (sint p, sint off)) (seeks (ws ! i)) = [(int i, 0)]"
    if "i < n" "is_ok (start_worker (su i) (of_nat i))" for i
    using reachable_setup(2) [OF assms(3) that(1)] that(2) part [OF that(1)]
    by (cases "su i" "of_nat i :: u64" rule: spawn_worker_cases) auto
  have "concat (map (map sint \<circ> assigned) ws) = map int [0..<n]"
    if "list_all (\<lambda>i. is_ok (start_worker (su i) (of_nat i))) [0..<n]"
  proof -
    have "map (map sint \<circ> assigned) ws = map (\<lambda>i. [int i]) [0..<n]"
      using started that reachable_setup(1) [OF assms(3)]
      by (intro nth_equalityI) (auto simp: list_all_iff)
    then show ?thesis by simp
  qed
  moreover have "sint (of_nat n :: i32) = int n"
    using assms(1) by (simp add: signed_of_nat signed_take_bit_int_eq_self)
  moreover have "requests = [Delete_topics benchmark_topics, Create_topics (map (\<lambda>t. (t, of_nat n, 1)) benchmark_topics)]"
    using assms(2) by (auto simp: prepare_topics_def Let_def)
  ultimately show ?thesis using started by (auto simp: list_all_iff)
qed

theorem partitions_covered_witness:
  "concat (map (map sint \<circ> assigned) (spawn_workers (\<lambda>_. setup_succeeds) 3)) = [0, 1, 2]
   \<and> map sint (assigned (spawn_workers (\<lambda>_. setup_succeeds) 3 ! 2)) = [2]"
proof -
  have "prepare_topics True True (\<lambda>_ _. True) True 3
      = Ok [Delete_topics benchmark_topics, Create_topics (map (\<lambda>t. (t, of_nat 3, 1)) benchmark_topics)]"
    by (simp add: prepare_topics_def expect_def benchmark_topics_def)
  moreover have "reachable (system_init (\<lambda>_. setup_succeeds) 3) (system_step Debug)
      (globals_init, spawn_workers (\<lambda>_. setup_succeeds) 3)"
    by (rule reachable_init) (simp add: system_init_def)
  ultimately have "concat (map (map sint \<circ> assigned) (spawn_workers (\<lambda>_. setup_succeeds) 3)) = map int [0..<3]
      \<and> map sint (assigned (spawn_workers (\<lambda>_. setup_succeeds) 3 ! 2)) = [int 2]"
    using partitions_covered [of 3 True True "\<lambda>_ _. True" True _ "\<lambda>_. setup_succeeds"]
    by (fastforce simp: list_all_iff start_worker_def expect_def setup_succeeds_def Let_def)
  then show ?thesis by (simp add: upt_rec)
qed

end
