(* ===== verification/Rdkafka_Run.thy ===== *)
theory Rdkafka_Run
  imports Rdkafka_Worker
begin

text \<open>
  A run of the rdkafka benchmark that ends: one worker that handles fifty million messages, batch after batch
  of 1000, finds the total reached at its last flush and stops. The schedule is built by induction over the
  batches, not written down.
\<close>

section \<open>One message, one batch\<close>

text \<open>A message whose payload can be summed.\<close>

definition summable :: "profile \<Rightarrow> message \<Rightarrow> bool" where
  "summable pf m \<longleftrightarrow> (case payload m of None \<Rightarrow> False | Some b \<Rightarrow> is_ok (sum_payload_rd pf b))"

lemma summableE:
  assumes "summable pf m"
  obtains b s where "payload m = Some b" "sum_payload_rd pf b = Ok s"
  using assms by (auto simp: summable_def is_ok_def split: option.splits sum.splits)

definition ready_rd :: "globals_rd \<Rightarrow> worker_rd \<Rightarrow> bool" where
  "ready_rd g w \<longleftrightarrow> phase_rd w = Rd_poll \<and> start_instant g = 1"

definition handle_events :: "message \<Rightarrow> event_rd list" where
  "handle_events m = [Poll_message m, Load_start_rd, Handle True, Check]"

lemma handle_one:
  assumes "summable pf m" "ready_rd g w" "unat (local_rd w) < 999" "processed_rd g < total_records_rd"
  shows "\<exists>w'. exec (worker_step_rd pf) (handle_events m) (g, w) = Some (g, w') \<and> ready_rd g w'
    \<and> unat (local_rd w') = unat (local_rd w) + 1 \<and> length (handled w') = length (handled w) + 1"
proof -
  obtain b s where b: "payload m = Some b" "sum_payload_rd pf b = Ok s" by (rule summableE [OF assms(1)])
  have loc: "unat (local_rd w + 1) = unat (local_rd w) + 1" using assms(3) by (intro local_rd_add_one) simp
  then have "\<not> 1000 \<le> local_rd w + 1" using assms(3) by (simp add: word_le_nat_alt)
  then show ?thesis
    using assms(2,4) b loc
    by (simp add: handle_events_def ready_rd_def load_start_rd_def handle_message_def check_rd_def Let_def not_le)
qed

lemma handle_many:
  assumes "summable pf m" "processed_rd g < total_records_rd"
  shows "ready_rd g w \<Longrightarrow> unat (local_rd w) + k \<le> 999 \<Longrightarrow>
    \<exists>evs w'. exec (worker_step_rd pf) evs (g, w) = Some (g, w') \<and> ready_rd g w'
      \<and> unat (local_rd w') = unat (local_rd w) + k \<and> length (handled w') = length (handled w) + k"
proof (induction k arbitrary: w)
  case 0
  then show ?case by (intro exI [of _ "[]"] exI [of _ w]) simp
next
  case (Suc k)
  then obtain w1 where w1: "exec (worker_step_rd pf) (handle_events m) (g, w) = Some (g, w1)" "ready_rd g w1"
    "unat (local_rd w1) = unat (local_rd w) + 1" "length (handled w1) = length (handled w) + 1"
    using handle_one [OF assms(1) Suc.prems(1) _ assms(2)] by auto
  with Suc.IH [OF w1(2)] Suc.prems(2) obtain evs w2 where "exec (worker_step_rd pf) evs (g, w1) = Some (g, w2)"
    "ready_rd g w2" "unat (local_rd w2) = unat (local_rd w1) + k" "length (handled w2) = length (handled w1) + k"
    by auto
  with w1 show ?case
    by (intro exI [of _ "handle_events m @ evs"] exI [of _ w2]) (simp add: exec_append)
qed

text \<open>The last message of a batch, with the flush, up to the decision that the flush makes.\<close>

definition flush_events :: "message \<Rightarrow> event_rd list" where
  "flush_events m = [Poll_message m, Load_start_rd, Handle True, Flush]"

lemma flush_one:
  assumes "summable pf m" "ready_rd g w" "unat (local_rd w) = 999" "unat (processed_rd g) + 1000 \<le> 50000000"
  shows "\<exists>w'. exec (worker_step_rd pf) (flush_events m) (g, w) = Some (g\<lparr>processed_rd := processed_rd g + 1000\<rparr>, w')
    \<and> length (handled w') = length (handled w) + 1
    \<and> (if unat (processed_rd g) + 1000 = 50000000 then phase_rd w' = Rd_stopped
       else phase_rd w' = Rd_check \<and> local_rd w' = 0)"
proof -
  obtain b s where b: "payload m = Some b" "sum_payload_rd pf b = Ok s" by (rule summableE [OF assms(1)])
  have "unat (local_rd w + 1) = 1000" using assms(3) local_rd_add_one [of "local_rd w"] by simp
  then have loc: "local_rd w + 1 = 1000" by (simp add: word_unat_eq_iff)
  have sum: "unat (processed_rd g + 1000) = unat (processed_rd g) + 1000"
    using assms(4) by (simp add: unat_word_ariths)
  have add: "add_u64 pf (processed_rd g) 1000 = Ok (processed_rd g + 1000)"
    using assms(4) by (simp add: add_u64_def)
  have "total_records_rd \<le> processed_rd g + 1000 \<longleftrightarrow> unat (processed_rd g) + 1000 = 50000000"
    using sum assms(4) by (auto simp: word_le_nat_alt total_records_rd_def)
  then show ?thesis
    using assms(2) b loc add
    by (simp add: flush_events_def ready_rd_def load_start_rd_def handle_message_def flush_rd_def Let_def)
qed

lemma batch:
  assumes "summable pf m" "ready_rd g w" "local_rd w = 0" "unat (processed_rd g) + 1000 \<le> 50000000"
  shows "\<exists>evs w'. exec (worker_step_rd pf) evs (g, w) = Some (g\<lparr>processed_rd := processed_rd g + 1000\<rparr>, w')
    \<and> length (handled w') = length (handled w) + 1000
    \<and> (if unat (processed_rd g) + 1000 = 50000000 then phase_rd w' = Rd_stopped
       else phase_rd w' = Rd_check \<and> local_rd w' = 0)"
proof -
  have "processed_rd g < total_records_rd"
    using assms(4) by (simp add: word_less_nat_alt total_records_rd_def)
  then obtain evs w1 where w1: "exec (worker_step_rd pf) evs (g, w) = Some (g, w1)" "ready_rd g w1"
    "unat (local_rd w1) = 999" "length (handled w1) = length (handled w) + 999"
    using handle_many [OF assms(1), of g w 999] assms(2,3) by auto
  from flush_one [OF assms(1) w1(2,3) assms(4)] obtain w2 where
    "exec (worker_step_rd pf) (flush_events m) (g, w1) = Some (g\<lparr>processed_rd := processed_rd g + 1000\<rparr>, w2)"
    "length (handled w2) = length (handled w1) + 1"
    "if unat (processed_rd g) + 1000 = 50000000 then phase_rd w2 = Rd_stopped
     else phase_rd w2 = Rd_check \<and> local_rd w2 = 0"
    by blast
  with w1 show ?thesis
    by (intro exI [of _ "evs @ flush_events m"] exI [of _ w2]) (simp add: exec_append del: One_nat_def)
qed

section \<open>The whole run\<close>

text \<open>After \<open>j\<close> batches short of the last.\<close>

lemma batches:
  assumes "summable pf m" "ready_rd g w" "local_rd w = 0" "processed_rd g = 0" "handled w = []"
  shows "j < 50000 \<Longrightarrow> \<exists>evs g' w'. exec (worker_step_rd pf) evs (g, w) = Some (g', w') \<and> ready_rd g' w'
    \<and> local_rd w' = 0 \<and> unat (processed_rd g') = 1000 * j \<and> length (handled w') = 1000 * j"
proof (induction j)
  case 0
  then show ?case using assms by (intro exI [of _ "[]"] exI [of _ g] exI [of _ w]) simp
next
  case (Suc j)
  then obtain evs g1 w1 where 1: "exec (worker_step_rd pf) evs (g, w) = Some (g1, w1)" "ready_rd g1 w1"
    "local_rd w1 = 0" "unat (processed_rd g1) = 1000 * j" "length (handled w1) = 1000 * j"
    by auto
  let ?g = "g1\<lparr>processed_rd := processed_rd g1 + 1000\<rparr>"
  from batch [OF assms(1) 1(2,3)] 1(4) Suc.prems obtain evs' w2
    where 2: "exec (worker_step_rd pf) evs' (g1, w1) = Some (?g, w2)"
      "length (handled w2) = length (handled w1) + 1000" "phase_rd w2 = Rd_check" "local_rd w2 = 0"
    by (fastforce split: if_splits)
  have sum: "unat (processed_rd g1 + 1000) = 1000 * Suc j"
    using 1(4) Suc.prems by (simp add: unat_word_ariths)
  then have "\<not> total_records_rd \<le> processed_rd g1 + 1000"
    using Suc.prems by (simp add: word_le_nat_alt total_records_rd_def)
  then have "worker_step_rd pf Check (?g, w2) = Some (?g, w2\<lparr>phase_rd := Rd_poll\<rparr>)"
    using 2(3) by (simp add: check_rd_def)
  with 1 2 have "exec (worker_step_rd pf) (evs @ evs' @ [Check]) (g, w) = Some (?g, w2\<lparr>phase_rd := Rd_poll\<rparr>)"
    by (simp add: exec_append)
  then show ?case
    using 1 2 sum
    by (intro exI [of _ "evs @ evs' @ [Check]"] exI [of _ ?g] exI [of _ "w2\<lparr>phase_rd := Rd_poll\<rparr>"])
      (simp add: ready_rd_def)
qed

text \<open>A first message without payload sets the start; it is not counted.\<close>

definition first_events :: "event_rd list" where
  "first_events = [Poll_message \<lparr>payload = None, msg_key = None\<rparr>, Load_start_rd, Cas_start_rd, Handle True, Check]"

lemma full_run:
  assumes "summable pf m"
  shows "\<exists>evs g w. exec (worker_step_rd pf) evs (globals_rd_init, worker_rd_init) = Some (g, w)
    \<and> phase_rd w = Rd_stopped \<and> length (handled w) = 50000000 \<and> unat (processed_rd g) = 50000000"
proof -
  define g0 where "g0 = globals_rd_init\<lparr>start_instant := 1\<rparr>"
  define w0 where "w0 = worker_rd_init\<lparr>polled_rd := [\<lparr>payload = None, msg_key = None\<rparr>]\<rparr>"
  have 0: "exec (worker_step_rd pf) first_events (globals_rd_init, worker_rd_init) = Some (g0, w0)"
    "ready_rd g0 w0" "local_rd w0 = 0" "processed_rd g0 = 0" "handled w0 = []"
    by (simp_all add: g0_def w0_def first_events_def globals_rd_init_def worker_rd_init_def load_start_rd_def
        cas_start_rd_def handle_message_def check_rd_def total_records_rd_def ready_rd_def)
  obtain evs g1 w1 where 1: "exec (worker_step_rd pf) evs (g0, w0) = Some (g1, w1)" "ready_rd g1 w1"
    "local_rd w1 = 0" "unat (processed_rd g1) = 49999000" "length (handled w1) = 49999000"
    using batches [OF assms 0(2-5), of 49999] by auto
  let ?g = "g1\<lparr>processed_rd := processed_rd g1 + 1000\<rparr>"
  from batch [OF assms 1(2,3)] 1(4) obtain evs' w2
    where 2: "exec (worker_step_rd pf) evs' (g1, w1) = Some (?g, w2)"
      "length (handled w2) = length (handled w1) + 1000" "phase_rd w2 = Rd_stopped"
    by (fastforce split: if_splits)
  have "unat (processed_rd g1 + 1000) = 50000000" using 1(4) by (simp add: unat_word_ariths)
  with 0 1 2 show ?thesis
    by (intro exI [of _ "first_events @ evs @ evs'"] exI [of _ ?g] exI [of _ w2]) (simp add: exec_append)
qed

text \<open>The run of the worker as a run of the system.\<close>

lemma exec_one_worker:
  "exec (worker_step_rd pf) evs (g, w) = Some (g', w') \<Longrightarrow>
   exec (system_step_rd_of pf) (map (Pair 0) evs) (g, [w]) = Some (g', [w'])"
proof (induction evs arbitrary: g w)
  case Nil
  then show ?case by simp
next
  case (Cons ev evs)
  then obtain g1 w1 where "worker_step_rd pf ev (g, w) = Some (g1, w1)"
    "exec (worker_step_rd pf) evs (g1, w1) = Some (g', w')"
    by (auto split: option.splits simp del: worker_step_rd.simps)
  with Cons.IH show ?case by (simp add: system_step_rd_of_def del: worker_step_rd.simps)
qed

lemma full_system_run:
  assumes "summable pf m"
  shows "\<exists>labs g w. exec (system_step_rd_of pf) labs
      (globals_rd_init, map (\<lambda>i. spawn_worker_rd (True, True, True)) [0..<1]) = Some (g, [w])
    \<and> phase_rd w = Rd_stopped \<and> length (handled w) = 50000000"
proof -
  obtain evs g w where run: "exec (worker_step_rd pf) evs (globals_rd_init, worker_rd_init) = Some (g, w)"
    "phase_rd w = Rd_stopped" "length (handled w) = 50000000"
    using full_run [OF assms] by blast
  have "map (\<lambda>i. spawn_worker_rd (True, True, True)) [0..<1] = [worker_rd_init]"
    by (simp add: spawn_worker_rd_def start_worker_rd_def expect_def)
  with exec_one_worker [OF run(1)] run(2,3) show ?thesis by metis
qed

end
