(* ===== verification/Codec_Copies.thy ===== *)
theory Codec_Copies
  imports Rdkafka_Sum
begin

text \<open>
  The codec functions that the endpoints of the streaming crates carry themselves: the generators a
  \<open>write_varint\<close>, the printers a \<open>read_varint\<close>. Each copy is translated from its own file and proved
  equal to the function of the crate's processor, so the lemmas of Krafka_Varint and Rdkafka_Varint
  carry over; a change to one copy breaks its equation here.
\<close>

named_theorems codec_copies

section \<open>stream-test-krafka\<close>

function generator_write_loop :: "u8 list \<Rightarrow> u64 \<Rightarrow> u8 list" where
  "generator_write_loop buf val =
     (if 0x80 \<le> val then generator_write_loop (buf @ [ucast val OR 0x80]) (drop_bit 7 val)
      else buf @ [ucast val])"
  by pat_completeness auto
termination
  by (relation "measure (\<lambda>(buf, val). unat val)")
    (auto intro!: unat_drop_bit_less simp: word_le_nat_alt)

definition generator_write_varint :: "u8 list \<Rightarrow> i64 \<Rightarrow> u8 list" where
  "generator_write_varint buf n = generator_write_loop buf (push_bit 1 n XOR signed_drop_bit 63 n)"

declare generator_write_loop.simps [simp del]

fun printer_read_loop :: "u64 \<Rightarrow> nat \<Rightarrow> u8 list \<Rightarrow> (u64 \<times> u8 list) res" where
  "printer_read_loop val shift [] = Panic Index_out_of_bounds"
| "printer_read_loop val shift (b # reader) =
     (let val = val OR push_bit shift (ucast (b AND 0x7F))
      in if b AND 0x80 = 0 then Ok (val, reader)
         else if 64 \<le> shift + 7 then Ok (val, reader)
         else printer_read_loop val (shift + 7) reader)"

definition printer_read_varint :: "u8 list \<Rightarrow> (i64 \<times> u8 list) res" where
  "printer_read_varint reader =
     and_then (printer_read_loop 0 0 reader)
       (\<lambda>(val, reader). Ok (drop_bit 1 val XOR - (val AND 1), reader))"

section \<open>stream-test-rust\<close>

function generator_write_loop_rd :: "u8 list \<Rightarrow> i64 \<Rightarrow> u8 list" where
  "generator_write_loop_rd buf val =
     (if 0x80 \<le> sint val
      then generator_write_loop_rd (buf @ [ucast val OR 0x80]) (signed_drop_bit 7 val)
      else buf @ [ucast val])"
  by pat_completeness auto
termination
  by (relation "measure (\<lambda>(buf, val). nat (sint val))") (auto simp: sint_signed_drop_bit_7)

definition generator_write_varint_rd :: "u8 list \<Rightarrow> i64 \<Rightarrow> u8 list" where
  "generator_write_varint_rd buf n =
     generator_write_loop_rd buf (push_bit 1 n XOR signed_drop_bit 63 n)"

declare generator_write_loop_rd.simps [simp del]

fun printer_read_loop_rd :: "profile \<Rightarrow> u64 \<Rightarrow> nat \<Rightarrow> u8 list \<Rightarrow> (u64 \<times> u8 list) res" where
  "printer_read_loop_rd pf val shift [] = Panic Index_out_of_bounds"
| "printer_read_loop_rd pf val shift (b # reader) =
     and_then (shl_u64 pf (ucast (b AND 0x7F)) shift) (\<lambda>x.
       let val = val OR x
       in if b AND 0x80 = 0 then Ok (val, reader)
          else printer_read_loop_rd pf val (shift + 7) reader)"

definition printer_read_varint_rd :: "profile \<Rightarrow> u8 list \<Rightarrow> (i64 \<times> u8 list) res" where
  "printer_read_varint_rd pf reader =
     and_then (printer_read_loop_rd pf 0 0 reader)
       (\<lambda>(val, reader). Ok (drop_bit 1 val XOR - (val AND 1), reader))"

section \<open>The copies are the processors' functions\<close>

lemma generator_write_loop_eq: "generator_write_loop buf v = write_loop buf v"
proof (induction buf v rule: generator_write_loop.induct)
  case (1 buf v)
  then show ?case
    by (subst generator_write_loop.simps, subst write_loop.simps) simp
qed

lemma generator_write_loop_rd_eq: "generator_write_loop_rd buf v = write_loop_rd buf v"
proof (induction buf v rule: generator_write_loop_rd.induct)
  case (1 buf v)
  then show ?case
    by (subst generator_write_loop_rd.simps, subst write_loop_rd.simps) simp
qed

lemma printer_read_loop_eq: "printer_read_loop acc s bs = read_loop acc s bs"
  by (induction bs arbitrary: acc s) (simp_all add: Let_def)

lemma printer_read_loop_rd_eq: "printer_read_loop_rd pf acc s bs = read_loop_rd pf acc s bs"
proof (induction bs arbitrary: acc s)
  case Nil
  then show ?case by simp
next
  case (Cons b bs)
  then show ?case by (cases "shl_u64 pf (ucast (b AND 0x7F)) s") (simp_all add: Let_def)
qed

lemma generator_write_varint_eq [codec_copies]: "generator_write_varint = write_varint"
  by (intro ext) (simp add: generator_write_varint_def write_varint_def zigzag_def generator_write_loop_eq)

lemma generator_write_varint_rd_eq [codec_copies]: "generator_write_varint_rd = write_varint_rd"
  by (intro ext)
    (simp add: generator_write_varint_rd_def write_varint_rd_def generator_write_loop_rd_eq)

lemma printer_read_varint_eq [codec_copies]: "printer_read_varint = read_varint"
  by (intro ext) (simp add: printer_read_varint_def read_varint_def unzigzag_def printer_read_loop_eq)

lemma printer_read_varint_rd_eq [codec_copies]: "printer_read_varint_rd = read_varint_rd"
  by (intro ext)
    (simp add: printer_read_varint_rd_def read_varint_rd_def unzigzag_def printer_read_loop_rd_eq)

declare codec_copies [simp]

end
