(* ===== verification/Stream_Endpoints.thy ===== *)
theory Stream_Endpoints
  imports Codec_Copies
begin

text \<open>
  The endpoints of the streaming pipelines: the generators of
  \<open>stream-test-krafka/src/bin/producer.rs\<close> and \<open>stream-test-rust/src/bin/producer.rs\<close> and the
  printers of the two \<open>consumer.rs\<close>. An endless loop is run over the list of its iterations'
  inputs: the drawn values of each record, or the answers of \<open>poll\<close>.
\<close>

section \<open>Generators\<close>

text \<open>State of the krafka generator's loop: its \<open>count\<close>, the payloads sent, the counts it logged.\<close>

record generator =
  gen_count :: u64
  gen_sent :: "u8 list list"
  gen_logged :: "u64 list"

definition generator_init :: generator where
  "generator_init = \<lparr>gen_count = 0, gen_sent = [], gen_logged = []\<rparr>"

text \<open>One iteration; the result of the send is dropped.\<close>

definition generate :: "profile \<Rightarrow> i64 list \<Rightarrow> generator \<Rightarrow> generator res" where
  "generate pf xs s =
     (let buf = write_record generator_write_varint xs in
      and_then (add_u64 pf (gen_count s) 1) (\<lambda>cnt.
        Ok \<lparr>gen_count = cnt, gen_sent = gen_sent s @ [buf],
            gen_logged = (if cnt mod 10000 = 0 then gen_logged s @ [cnt] else gen_logged s)\<rparr>))"

fun generate_all :: "profile \<Rightarrow> i64 list list \<Rightarrow> generator \<Rightarrow> generator res" where
  "generate_all pf [] s = Ok s"
| "generate_all pf (xs # xss) s = and_then (generate pf xs s) (\<lambda>s. generate_all pf xss s)"

definition run_generator :: "profile \<Rightarrow> bool \<Rightarrow> bool \<Rightarrow> i64 list list \<Rightarrow> generator res" where
  "run_generator pf runtime_ok producer_ok draws =
     and_then (expect ''Failed to create runtime'' runtime_ok) (\<lambda>_.
     and_then (expect ''Failed to create producer'' producer_ok) (\<lambda>_.
       generate_all pf draws generator_init))"

text \<open>The rdkafka generator: the payload of each iteration.\<close>

definition generate_rd :: "i64 list \<Rightarrow> u8 list" where
  "generate_rd xs = write_record generator_write_varint_rd xs"

lemma generate_all_spec:
  assumes "n + length xss < 2 ^ 64" "gen_count s = of_nat n"
  shows "generate_all pf xss s =
    Ok \<lparr>gen_count = of_nat (n + length xss),
        gen_sent = gen_sent s @ map (write_record write_varint) xss,
        gen_logged = gen_logged s
          @ map of_nat (filter (\<lambda>k. k mod 10000 = 0) [Suc n..<Suc (n + length xss)])\<rparr>"
  using assms
proof (induction xss arbitrary: n s)
  case Nil
  then show ?case by simp
next
  case (Cons xs xss)
  have lt: "Suc n < 2 ^ 64" using Cons.prems(1) by simp
  have un: "unat (of_nat n :: u64) = n" "unat (of_nat (Suc n) :: u64) = Suc n"
    using lt by (simp_all add: unat_of_nat del: of_nat_Suc)
  have cnt: "add_u64 pf (gen_count s) 1 = Ok (of_nat (Suc n))"
    using lt Cons.prems(2) un by (simp add: add_u64_def add.commute)
  have md: "(of_nat (Suc n) :: u64) mod 10000 = 0 \<longleftrightarrow> Suc n mod 10000 = 0"
    using un(2) by (simp add: word_unat_eq_iff unat_mod del: of_nat_Suc)
  define s1 where "s1 = \<lparr>gen_count = of_nat (Suc n),
      gen_sent = gen_sent s @ [write_record write_varint xs],
      gen_logged = (if Suc n mod 10000 = 0 then gen_logged s @ [of_nat (Suc n)] else gen_logged s)\<rparr>"
  have step: "generate pf xs s = Ok s1"
    using cnt md by (simp add: generate_def Let_def s1_def del: of_nat_Suc)
  have "generate_all pf xss s1 = Ok \<lparr>gen_count = of_nat (Suc n + length xss),
      gen_sent = gen_sent s1 @ map (write_record write_varint) xss,
      gen_logged = gen_logged s1
        @ map of_nat (filter (\<lambda>k. k mod 10000 = 0) [Suc (Suc n)..<Suc (Suc n + length xss)])\<rparr>"
    using Cons.prems(1) by (intro Cons.IH) (simp_all add: s1_def)
  moreover have upt: "[Suc n..<Suc (n + length (xs # xss))]
      = Suc n # [Suc (Suc n)..<Suc (Suc n + length xss)]"
    using upt_conv_Cons [of "Suc n" "Suc (n + length (xs # xss))"] by simp
  ultimately show ?case
    unfolding generate_all.simps(2) step and_then_Ok upt
    by (simp add: s1_def del: of_nat_Suc upt_Suc)
qed

section \<open>Printers\<close>

datatype printed = Sum_line i64 | Poll_error_line

text \<open>
  The record loop of the krafka printer: the lines it prints and the panic that ends the process,
  if one does.
\<close>

fun print_records :: "u8 list option list \<Rightarrow> printed list \<times> panic option" where
  "print_records [] = ([], None)"
| "print_records (None # values) = print_records values"
| "print_records (Some payload # values) =
     (case printer_read_varint payload of
        Inl p \<Rightarrow> ([], Some p)
      | Inr (s, _) \<Rightarrow> (case print_records values of (lines, e) \<Rightarrow> (Sum_line s # lines, e)))"

text \<open>The poll loop; \<open>None\<close> is a poll error.\<close>

fun print_polls :: "u8 list option list option list \<Rightarrow> printed list \<times> panic option" where
  "print_polls [] = ([], None)"
| "print_polls (None # polls) = (case print_polls polls of (lines, e) \<Rightarrow> (Poll_error_line # lines, e))"
| "print_polls (Some values # polls) =
     (case print_records values of
        (lines, Some p) \<Rightarrow> (lines, Some p)
      | (lines, None) \<Rightarrow> (case print_polls polls of (lines', e) \<Rightarrow> (lines @ lines', e)))"

text \<open>
  The rdkafka printer polls single messages: nothing or an error (\<open>None\<close>) is passed over, and so is
  a message without payload (\<open>Some None\<close>).
\<close>

fun print_messages_rd :: "profile \<Rightarrow> u8 list option option list \<Rightarrow> printed list \<times> panic option" where
  "print_messages_rd pf [] = ([], None)"
| "print_messages_rd pf (None # polls) = print_messages_rd pf polls"
| "print_messages_rd pf (Some None # polls) = print_messages_rd pf polls"
| "print_messages_rd pf (Some (Some payload) # polls) =
     (case printer_read_varint_rd pf payload of
        Inl p \<Rightarrow> ([], Some p)
      | Inr (s, _) \<Rightarrow> (case print_messages_rd pf polls of (lines, e) \<Rightarrow> (Sum_line s # lines, e)))"

lemma print_records_sums:
  "print_records (map (\<lambda>s. Some (write_varint [] s)) ss) = (map Sum_line ss, None)"
proof (induction ss)
  case Nil
  then show ?case by simp
next
  case (Cons s ss)
  with read_varint_write_varint [of s "[]"] show ?case by simp
qed

lemma print_polls_append_ok:
  "print_records values = (lines, None) \<Longrightarrow>
   print_polls (Some values # polls) = (case print_polls polls of (lines', e) \<Rightarrow> (lines @ lines', e))"
  by simp

lemma print_messages_rd_sums:
  "list_all small_i64 ss \<Longrightarrow>
   print_messages_rd pf (map (\<lambda>s. Some (Some (write_varint_rd [] s))) ss) = (map Sum_line ss, None)"
proof (induction ss)
  case Nil
  then show ?case by simp
next
  case (Cons s ss)
  then show ?case using read_varint_rd_write_varint_rd [of s pf "[]"] by simp
qed

section \<open>The programs around the loops\<close>

text \<open>
  The \<open>main\<close>s: client creation and subscription panic when they fail.
\<close>

definition run_generator_rd :: "bool \<Rightarrow> i64 list list \<Rightarrow> u8 list list res" where
  "run_generator_rd create_ok draws =
     and_then (expect ''Producer creation error'' create_ok) (\<lambda>_. Ok (map generate_rd draws))"

definition run_printer ::
  "bool \<Rightarrow> bool \<Rightarrow> bool \<Rightarrow> u8 list option list option list \<Rightarrow> printed list \<times> panic option"
where
  "run_printer runtime_ok consumer_ok subscribe_ok polls =
     (if \<not> runtime_ok then ([], Some (Expect_failed ''Failed to create runtime''))
      else if \<not> consumer_ok then ([], Some (Expect_failed ''Failed to create consumer''))
      else if \<not> subscribe_ok then ([], Some (Expect_failed ''Failed to subscribe''))
      else print_polls polls)"

definition run_printer_rd ::
  "profile \<Rightarrow> bool \<Rightarrow> bool \<Rightarrow> u8 list option option list \<Rightarrow> printed list \<times> panic option"
where
  "run_printer_rd pf create_ok subscribe_ok polls =
     (if \<not> create_ok then ([], Some (Expect_failed ''Consumer creation error''))
      else if \<not> subscribe_ok then ([], Some (Expect_failed ''Can't subscribe''))
      else print_messages_rd pf polls)"

lemma print_polls_sums:
  "print_polls (map (\<lambda>ss. Some (map (\<lambda>s. Some (write_varint [] s)) ss)) sss)
   = (map Sum_line (concat sss), None)"
  by (induction sss) (simp_all add: print_records_sums)

section \<open>Properties\<close>

text \<open>
  The krafka generator sends one well-formed record for each draw, counts them exactly below 2^64,
  and logs the count at every multiple of ten thousand and nowhere else.
\<close>

lemma generator_run:
  assumes "length draws < 2 ^ 64"
  shows "run_generator pf True True draws =
    Ok \<lparr>gen_count = of_nat (length draws), gen_sent = map (write_record write_varint) draws,
        gen_logged = map of_nat (filter (\<lambda>k. k mod 10000 = 0) [1..<Suc (length draws)])\<rparr>"
  using generate_all_spec [of 0 draws generator_init pf] assms
  by (simp add: run_generator_def expect_def generator_init_def)

lemma generator_run_witness:
  "run_generator Debug True True [[1, 2], [3, 4, 5]] =
    Ok \<lparr>gen_count = 2, gen_sent = map (write_record write_varint) [[1, 2], [3, 4, 5]], gen_logged = []\<rparr>"
  using generator_run [of "[[1, 2], [3, 4, 5]]" Debug] by simp

text \<open>
  The printers show exactly the sums that were encoded, poll by poll and in order, and end without
  a panic; the rdkafka one for the sums its writer can encode.
\<close>

lemma printers_show_sums:
  assumes "list_all small_i64 ss"
  shows "run_printer True True True (map (\<lambda>ss. Some (map (\<lambda>s. Some (write_varint [] s)) ss)) sss)
      = (map Sum_line (concat sss), None)
    \<and> run_printer_rd pf True True (map (\<lambda>s. Some (Some (write_varint_rd [] s))) ss) = (map Sum_line ss, None)"
  using print_messages_rd_sums [OF assms, of pf]
  by (simp add: run_printer_def run_printer_rd_def print_polls_sums)

end
