(* ===== verification/Rdkafka_Main.thy ===== *)
theory Rdkafka_Main
  imports Rdkafka_Refinement Rdkafka_Run Stream_Endpoints Stream_Config Reporting
begin

text \<open>
  The rdkafka processor as one program: configuration, load phase, workers, join, result. As for the
  krafka one, what comes from outside is a record and the interleaving a list of labels.
\<close>

record 'f outside_rd =
  rd_env :: env
  rd_group_nanos :: nat
  rd_load_ok :: "bool \<times> bool"
  rd_draws :: "nat \<Rightarrow> i64 list"
  rd_workers :: "nat \<Rightarrow> bool \<times> bool \<times> bool"
  rd_schedule :: "(nat \<times> event_rd) list"
  rd_duration :: 'f
  rd_f64 :: "'f f64_ops"

datatype 'f outcome_rd =
    Panicked_rd panic
  | Processing_rd
  | Returned_rd "u8 list list option" system_rd "'f result_line list"

text \<open>
  The load phase: \<open>for _ in 0..TOTAL_RECORDS\<close>, one draw for each number; the results of the sends are dropped,
  one flush at the end is unwrapped.
\<close>

definition records_drawn_rd :: "(nat \<Rightarrow> i64 list) \<Rightarrow> u8 list list" where
  "records_drawn_rd draws = map (write_record write_varint_rd \<circ> draws) [0..<unat total_records_rd]"

lemma records_drawn_rd_length: "length (records_drawn_rd draws) = 50000000"
  unfolding records_drawn_rd_def length_map length_upt total_records_rd_def by simp

definition load_phase_payloads_rd :: "bool \<Rightarrow> bool \<Rightarrow> (nat \<Rightarrow> i64 list) \<Rightarrow> u8 list list res" where
  "load_phase_payloads_rd create_ok flush_ok draws =
     and_then (expect ''unwrap'' create_ok) (\<lambda>_.
       let payloads = records_drawn_rd draws in
       and_then (expect ''unwrap'' flush_ok) (\<lambda>_. Ok payloads))"

definition run_load_phase_rd :: "'f outside_rd \<Rightarrow> stream_config_rd \<Rightarrow> u8 list list option res" where
  "run_load_phase_rd out c =
     (if load_phase_rd c
      then (case rd_load_ok out of (create, flush) \<Rightarrow>
             and_then (load_phase_payloads_rd create flush (rd_draws out)) (\<lambda>payloads. Ok (Some payloads)))
      else Ok None)"

definition all_joined_rd :: "system_rd \<Rightarrow> bool" where
  "all_joined_rd s \<longleftrightarrow> list_all (\<lambda>w. ended_rd (phase_rd w)) (snd s)"

definition run_workers_rd :: "profile \<Rightarrow> 'f outside_rd \<Rightarrow> stream_config_rd \<Rightarrow> system_rd option" where
  "run_workers_rd pf out c =
     exec (system_step_rd_of pf) (rd_schedule out)
       (globals_rd_init, map (\<lambda>i. spawn_worker_rd (rd_workers out i)) [0..<num_workers_rd c])"

definition rdkafka_main :: "profile \<Rightarrow> 'f outside_rd \<Rightarrow> 'f outcome_rd" where
  "rdkafka_main pf out =
     (case read_config_rd (rd_group_nanos out) (rd_env out) of
        Inl p \<Rightarrow> Panicked_rd p
      | Inr c \<Rightarrow>
          (case run_load_phase_rd out c of
             Inl p \<Rightarrow> Panicked_rd p
           | Inr loaded \<Rightarrow>
               (case run_workers_rd pf out c of
                  None \<Rightarrow> Processing_rd
                | Some s \<Rightarrow>
                    if all_joined_rd s
                    then Returned_rd loaded s (result_lines (rd_f64 out) (rd_duration out))
                    else Processing_rd)))"

lemma rdkafka_main_Returned:
  assumes "rdkafka_main pf out = Returned_rd loaded s lines"
  shows "\<exists>c. read_config_rd (rd_group_nanos out) (rd_env out) = Ok c \<and> run_load_phase_rd out c = Ok loaded
    \<and> run_workers_rd pf out c = Some s \<and> all_joined_rd s
    \<and> lines = result_lines (rd_f64 out) (rd_duration out)"
  using assms by (auto simp: rdkafka_main_def split: sum.splits option.splits if_splits)

lemma run_workers_rd_reachable:
  "run_workers_rd pf out c = Some s \<Longrightarrow>
   reachable (system_init_rd (rd_workers out) (num_workers_rd c)) (system_step_rd pf) s"
  unfolding run_workers_rd_def by (rule system_rd_run)

lemma run_load_phase_rd_loads:
  "run_load_phase_rd out c = Ok loaded \<Longrightarrow>
   loaded = (if load_phase_rd c then Some (records_drawn_rd (rd_draws out)) else None)"
  by (auto simp: run_load_phase_rd_def load_phase_payloads_rd_def Let_def split: prod.splits if_splits)

lemma read_config_rd_load: "read_config_rd k e = Ok c \<Longrightarrow> load_phase_rd c \<longleftrightarrow> var_is_ok e ''BENCHMARK''"
  by (auto simp: read_config_rd_def)

section \<open>Properties\<close>

text \<open>
  C11: When the rdkafka benchmark returns, it has handed its fifty million drawn records to the producer if
  \<open>BENCHMARK\<close> is set, and none otherwise; each worker was given what its polls returned and has crashed, or
  has stopped after sending the output of every message it was given; and a worker that stopped means that
  fifty million messages have been handled, each worker's share being a multiple of 1000 if there were no more.
\<close>

theorem rdkafka_main_returned:
  assumes "rdkafka_main pf out = Returned_rd loaded s lines"
  shows "loaded = (if var_is_ok (rd_env out) ''BENCHMARK'' then Some (records_drawn_rd (rd_draws out)) else None)
    \<and> map polled_rd (snd s) = map (\<lambda>i. polled_by i (rd_schedule out)) [0..<length (snd s)]
    \<and> list_all (\<lambda>w. is_crashed_rd (phase_rd w)
        \<or> phase_rd w = Rd_stopped \<and> sent_rd w = outputs_rd pf (map payload (polled_rd w))) (snd s)
    \<and> (list_ex (\<lambda>w. phase_rd w = Rd_stopped) (snd s) \<longrightarrow>
        50000000 \<le> total_handled (snd s)
        \<and> (total_handled (snd s) = 50000000 \<longrightarrow> list_all (\<lambda>w. length (handled w) mod 1000 = 0) (snd s)))"
proof -
  obtain c where c: "read_config_rd (rd_group_nanos out) (rd_env out) = Ok c" "run_load_phase_rd out c = Ok loaded"
    "run_workers_rd pf out c = Some s" "all_joined_rd s"
    using rdkafka_main_Returned [OF assms] by blast
  obtain g ws where s: "s = (g, ws)" by (cases s)
  note r = run_workers_rd_reachable [OF c(3)]
  note inv = reachable_rd_inv [OF r [unfolded s]] and refines = rdkafka_refines.reachable_inv [OF r]
  have "50000000 \<le> total_handled ws
      \<and> (total_handled ws = 50000000 \<longrightarrow> list_all (\<lambda>w. length (handled w) mod 1000 = 0) ws)"
    if "list_ex (\<lambda>w. phase_rd w = Rd_stopped) ws"
  proof -
    have stop: "50000000 \<le> total_flushed_rd ws"
      using that inv(3) by (auto simp: list_ex_iff total_records_rd_def)
    then show ?thesis
      using total_flushed_rd_le [of ws] total_flushed_uneven [OF inv(1)] by (fastforce simp: list_all_iff)
  qed
  moreover have "is_crashed_rd (phase_rd w)
      \<or> phase_rd w = Rd_stopped \<and> sent_rd w = outputs_rd pf (map payload (polled_rd w))" if "w \<in> set ws" for w
  proof -
    have "refine_inv_rd pf w"
      using refines that by (simp add: system_refine_inv_rd_def system_inv_rd_def refine_inv_rd_def s list_all_iff)
    moreover have "ended_rd (phase_rd w)" using c(4) that by (simp add: all_joined_rd_def s list_all_iff)
    ultimately show ?thesis using sent_rd_outputs [of pf w] by (cases "phase_rd w") auto
  qed
  moreover have "map polled_rd ws = map (\<lambda>i. polled_by i (rd_schedule out)) [0..<num_workers_rd c]"
    by (rule system_run_rd_polled) (rule c(3) [unfolded run_workers_rd_def s])
  moreover from this have "length ws = num_workers_rd c" by (metis length_map length_upt diff_zero)
  ultimately show ?thesis
    using run_load_phase_rd_loads [OF c(2)] read_config_rd_load [OF c(1)] by (simp add: s list_all_iff)
qed

text \<open>
  A benchmark with one worker and the full load. The schedule is one of those whose existence
  \<open>full_system_run\<close> shows: the worker handles fifty million messages and stops.
\<close>

definition full_outside :: "(nat \<times> event_rd) list \<Rightarrow> unit outside_rd" where
  "full_outside labs =
     \<lparr>rd_env = [''BENCHMARK'' \<mapsto> '''', ''NUM_WORKERS'' \<mapsto> ''1''], rd_group_nanos = 42, rd_load_ok = (True, True),
      rd_draws = (\<lambda>k. [3, 4]), rd_workers = (\<lambda>_. (True, True, True)), rd_schedule = labs, rd_duration = (),
      rd_f64 = \<lparr>f64_of_u64 = (\<lambda>_. ()), f64_div = (\<lambda>_ _. ()), f64_billion = (), f64_one = ()\<rparr>\<rparr>"

lemma full_read_config:
  "\<exists>c. read_config_rd 42 (rd_env (full_outside labs)) = Ok c \<and> num_workers_rd c = 1 \<and> load_phase_rd c"
  by (simp add: full_outside_def read_config_rd_def unwrap_or_def var_is_ok_def expect_some_def
      parse_usize_def char_digit_def)

lemma full_main:
  "\<exists>labs loaded g w lines. rdkafka_main Release (full_outside labs) = Returned_rd loaded (g, [w]) lines
    \<and> phase_rd w = Rd_stopped \<and> length (handled w) = 50000000"
proof -
  have "summable Release \<lparr>payload = Some (write_record write_varint_rd [3, 4]), msg_key = None\<rparr>" by code_simp
  then obtain labs g w where run: "exec (system_step_rd_of Release) labs
      (globals_rd_init, map (\<lambda>i. spawn_worker_rd (True, True, True)) [0..<1]) = Some (g, [w])"
    and w: "phase_rd w = Rd_stopped" "length (handled w) = 50000000"
    using full_system_run by blast
  obtain c where c: "read_config_rd 42 (rd_env (full_outside labs)) = Ok c" "num_workers_rd c = 1" "load_phase_rd c"
    using full_read_config by blast
  have "rd_group_nanos (full_outside labs) = 42" by (simp add: full_outside_def)
  moreover have "run_workers_rd Release (full_outside labs) c = Some (g, [w])"
    using run by (simp add: run_workers_rd_def full_outside_def c(2))
  moreover have "run_load_phase_rd (full_outside labs) c = Ok (Some (records_drawn_rd (\<lambda>k. [3, 4])))"
    by (simp add: run_load_phase_rd_def load_phase_payloads_rd_def full_outside_def expect_def c(3) Let_def)
  ultimately have "rdkafka_main Release (full_outside labs) = Returned_rd (Some (records_drawn_rd (\<lambda>k. [3, 4]))) (g, [w])
      (result_lines (rd_f64 (full_outside labs)) (rd_duration (full_outside labs)))"
    using w(1) c(1) by (simp add: rdkafka_main_def all_joined_rd_def)
  with w show ?thesis by blast
qed

theorem rdkafka_main_returned_witness:
  "\<exists>labs g w lines. rdkafka_main Release (full_outside labs)
      = Returned_rd (Some (records_drawn_rd (\<lambda>k. [3, 4]))) (g, [w]) lines
    \<and> phase_rd w = Rd_stopped \<and> total_handled [w] = 50000000 \<and> length (handled w) mod 1000 = 0
    \<and> sent_rd w = outputs_rd Release (map payload (polled_by 0 labs))"
proof -
  obtain labs loaded g w lines where run: "rdkafka_main Release (full_outside labs) = Returned_rd loaded (g, [w]) lines"
    and w: "phase_rd w = Rd_stopped" "length (handled w) = 50000000"
    using full_main by blast
  note * = rdkafka_main_returned [OF run]
  have "total_handled [w] = 50000000" "length (handled w) mod 1000 = 0"
    using w(2) by (simp_all add: total_handled_def)
  moreover have "rdkafka_main Release (full_outside labs) = Returned_rd (Some (records_drawn_rd (\<lambda>k. [3, 4]))) (g, [w]) lines"
    using * run by (simp add: full_outside_def var_is_ok_def)
  moreover have "sent_rd w = outputs_rd Release (map payload (polled_by 0 labs))"
    using * w(1) by (simp add: full_outside_def)
  ultimately show ?thesis
    using w(1) by (intro exI [of _ labs] exI [of _ g] exI [of _ w] exI [of _ lines] conjI)
qed

end
