(* ===== verification/Message_Common.thy ===== *)
theory Message_Common
  imports Text_Format Stream_Config
begin

text \<open>
  What the producers and consumers of \<open>kafka-test-krafka\<close> and \<open>kafka-test-rust\<close> share: the schema
  file, the environment, the Avro values they build and take apart.

  Avro values come from the \<open>apache_avro\<close> crate; the datatype has the constructors that the programs
  name (\<open>Value::Int\<close> is \<open>Int_value\<close>), the rest is \<open>Other_value\<close>. The types of \<open>f64\<close> and \<open>f32\<close> are type parameters, and the three
  float operations of the programs (the literal 0.0, the widening cast, subtraction) a record.
\<close>

section \<open>Schema file\<close>

text \<open>
  The file system at start: whether a path exists, opens, and its text if it can be read as UTF-8.
\<close>

record filesystem =
  path_exists :: "string \<Rightarrow> bool"
  path_opens :: "string \<Rightarrow> bool"
  path_text :: "string \<Rightarrow> string option"

definition schema_paths :: "string list" where
  "schema_paths = [''../schemas/message.avsc'', ''/app/schemas/message.avsc'', ''schemas/message.avsc'']"

text \<open>\<open>Schema::parse_str\<close> is the parameter \<open>parse\<close>.\<close>

fun load_from :: "(string \<Rightarrow> 's option) \<Rightarrow> filesystem \<Rightarrow> string list \<Rightarrow> 's res" where
  "load_from parse fs [] = Panic (Expect_failed ''Schema file not found in paths'')"
| "load_from parse fs (p # ps) =
     (if path_exists fs p
      then and_then (expect_some ''Failed to read schema file'' (path_text fs p)) (\<lambda>content.
             expect_some ''Failed to parse schema'' (parse content))
      else load_from parse fs ps)"

definition load_schema :: "(string \<Rightarrow> 's option) \<Rightarrow> filesystem \<Rightarrow> 's res" where
  "load_schema parse fs = load_from parse fs schema_paths"

text \<open>The programs of \<open>kafka-test-rust\<close> open the file and read it in two steps.\<close>

fun load_from_rd :: "(string \<Rightarrow> 's option) \<Rightarrow> filesystem \<Rightarrow> string list \<Rightarrow> 's res" where
  "load_from_rd parse fs [] = Panic (Expect_failed ''Schema file not found in paths'')"
| "load_from_rd parse fs (p # ps) =
     (if path_exists fs p
      then and_then (expect ''Failed to open schema file'' (path_opens fs p)) (\<lambda>_.
           and_then (expect_some ''Failed to read schema file'' (path_text fs p)) (\<lambda>content.
             expect_some ''Failed to parse schema'' (parse content)))
      else load_from_rd parse fs ps)"

definition load_schema_rd :: "(string \<Rightarrow> 's option) \<Rightarrow> filesystem \<Rightarrow> 's res" where
  "load_schema_rd parse fs = load_from_rd parse fs schema_paths"

text \<open>
  The krafka consumer and the rdkafka producer carry their own copies of the two loaders, paths
  included; they are translated from their own files and proved equal below.
\<close>

fun load_from_consumer :: "(string \<Rightarrow> 's option) \<Rightarrow> filesystem \<Rightarrow> string list \<Rightarrow> 's res" where
  "load_from_consumer parse fs [] = Panic (Expect_failed ''Schema file not found in paths'')"
| "load_from_consumer parse fs (p # ps) =
     (if path_exists fs p
      then and_then (expect_some ''Failed to read schema file'' (path_text fs p)) (\<lambda>content.
             expect_some ''Failed to parse schema'' (parse content))
      else load_from_consumer parse fs ps)"

definition load_schema_consumer :: "(string \<Rightarrow> 's option) \<Rightarrow> filesystem \<Rightarrow> 's res" where
  "load_schema_consumer parse fs = load_from_consumer parse fs
     [''../schemas/message.avsc'', ''/app/schemas/message.avsc'', ''schemas/message.avsc'']"

fun load_from_producer_rd :: "(string \<Rightarrow> 's option) \<Rightarrow> filesystem \<Rightarrow> string list \<Rightarrow> 's res" where
  "load_from_producer_rd parse fs [] = Panic (Expect_failed ''Schema file not found in paths'')"
| "load_from_producer_rd parse fs (p # ps) =
     (if path_exists fs p
      then and_then (expect ''Failed to open schema file'' (path_opens fs p)) (\<lambda>_.
           and_then (expect_some ''Failed to read schema file'' (path_text fs p)) (\<lambda>content.
             expect_some ''Failed to parse schema'' (parse content)))
      else load_from_producer_rd parse fs ps)"

definition load_schema_producer_rd :: "(string \<Rightarrow> 's option) \<Rightarrow> filesystem \<Rightarrow> 's res" where
  "load_schema_producer_rd parse fs = load_from_producer_rd parse fs
     [''../schemas/message.avsc'', ''/app/schemas/message.avsc'', ''schemas/message.avsc'']"

lemma load_schema_consumer_eq [simp]: "load_schema_consumer = load_schema"
proof (intro ext)
  fix parse :: "string \<Rightarrow> 's option" and fs
  have "load_from_consumer parse fs ps = load_from parse fs ps" for ps
    by (induction ps) simp_all
  then show "load_schema_consumer parse fs = load_schema parse fs"
    by (simp add: load_schema_consumer_def load_schema_def schema_paths_def)
qed

lemma load_schema_producer_rd_eq [simp]: "load_schema_producer_rd = load_schema_rd"
proof (intro ext)
  fix parse :: "string \<Rightarrow> 's option" and fs
  have "load_from_producer_rd parse fs ps = load_from_rd parse fs ps" for ps
    by (induction ps) simp_all
  then show "load_schema_producer_rd parse fs = load_schema_rd parse fs"
    by (simp add: load_schema_producer_rd_def load_schema_rd_def schema_paths_def)
qed

lemma load_from_first:
  "path_exists fs p \<Longrightarrow> list_all (\<lambda>q. \<not> path_exists fs q) before \<Longrightarrow>
   load_from parse fs (before @ p # after)
   = and_then (expect_some ''Failed to read schema file'' (path_text fs p)) (\<lambda>content.
       expect_some ''Failed to parse schema'' (parse content))"
  by (induction before) simp_all

lemma load_from_none:
  "list_all (\<lambda>q. \<not> path_exists fs q) ps \<Longrightarrow>
   load_from parse fs ps = Panic (Expect_failed ''Schema file not found in paths'')"
  by (induction ps) simp_all

text \<open>The two loaders agree where an existing file that cannot be opened cannot be read either.\<close>

lemma load_from_rd_ok:
  "(\<And>p. path_text fs p \<noteq> None \<Longrightarrow> path_opens fs p) \<Longrightarrow>
   load_from_rd parse fs ps = Ok s \<longleftrightarrow> load_from parse fs ps = Ok s"
  by (induction ps) (auto simp: expect_def expect_some_def split: option.splits)

section \<open>Environment\<close>

record client_config =
  cl_bootstrap :: string
  cl_topic :: string
  cl_group :: string
  cl_offset_reset :: string

text \<open>The krafka clients rewrite \<open>localhost\<close>, to keep the resolver off IPv6.\<close>

definition ipv4_bootstrap :: "string \<Rightarrow> string" where
  "ipv4_bootstrap servers =
     (if contains ''localhost'' servers then replace ''localhost'' ''127.0.0.1'' servers else servers)"

definition client_config_rd :: "env \<Rightarrow> client_config" where
  "client_config_rd e =
     \<lparr>cl_bootstrap = unwrap_or (e ''KAFKA_BOOTSTRAP_SERVERS'') ''127.0.0.1:9094'',
      cl_topic = unwrap_or (e ''TOPIC_NAME'') ''my-topic-1'',
      cl_group = unwrap_or (e ''CONSUMER_GROUP_ID'') ''my-group-1'',
      cl_offset_reset = unwrap_or (e ''AUTO_OFFSET_RESET'') ''latest''\<rparr>"

definition client_config_krafka :: "env \<Rightarrow> client_config" where
  "client_config_krafka e =
     \<lparr>cl_bootstrap = ipv4_bootstrap (unwrap_or (e ''KAFKA_BOOTSTRAP_SERVERS'') ''127.0.0.1:9094''),
      cl_topic = unwrap_or (e ''TOPIC_NAME'') ''my-topic-1'',
      cl_group = unwrap_or (e ''CONSUMER_GROUP_ID'') ''my-group-1'',
      cl_offset_reset = unwrap_or (e ''AUTO_OFFSET_RESET'') ''latest''\<rparr>"

datatype offset_reset = Earliest | Latest | No_reset

definition parse_offset_reset :: "string \<Rightarrow> offset_reset" where
  "parse_offset_reset s =
     (if s = ''earliest'' then Earliest else if s = ''none'' then No_reset else Latest)"

lemma ipv4_bootstrap_eq: "ipv4_bootstrap s = replace ''localhost'' ''127.0.0.1'' s"
  by (simp add: ipv4_bootstrap_def replace_absent)

lemma ipv4_bootstrap_free: "\<not> contains ''localhost'' (ipv4_bootstrap s)"
  unfolding ipv4_bootstrap_eq by (rule replace_removes) simp_all

section \<open>Avro values\<close>

datatype ('d, 'f) avro =
    Long i64
  | Int_value i32
  | Double 'd
  | Float 'f
  | String string
  | Record "(string \<times> ('d, 'f) avro) list"
  | Other_value

record ('d, 'f) floats =
  f64_zero :: 'd
  f64_of_f32 :: "'f \<Rightarrow> 'd"
  f64_minus :: "'d \<Rightarrow> 'd \<Rightarrow> 'd"

text \<open>
  \<open>fields.iter().find(|(k, _)| k == name)\<close> is the first entry of that name, \<open>map_of\<close>; the \<open>and_then\<close> takes
  the constructors it knows and the default covers the rest.
\<close>

definition field_message_id :: "(string \<times> ('d, 'f) avro) list \<Rightarrow> i64" where
  "field_message_id entries =
     (case map_of entries ''message_id'' of
        Some (Long l) \<Rightarrow> l
      | Some (Int_value i) \<Rightarrow> scast i
      | _ \<Rightarrow> 0)"

definition field_event_time :: "('d, 'f) floats \<Rightarrow> (string \<times> ('d, 'f) avro) list \<Rightarrow> 'd" where
  "field_event_time fl entries =
     (case map_of entries ''event_time'' of
        Some (Double d) \<Rightarrow> d
      | Some (Float f) \<Rightarrow> f64_of_f32 fl f
      | _ \<Rightarrow> f64_zero fl)"

definition field_content :: "(string \<times> ('d, 'f) avro) list \<Rightarrow> string" where
  "field_content entries =
     (case map_of entries ''content'' of
        Some (String s) \<Rightarrow> s
      | _ \<Rightarrow> ''Unknown'')"

text \<open>The record a producer builds: three \<open>put\<close>s in this order.\<close>

definition message_text :: "int \<Rightarrow> string" where
  "message_text k = ''Message '' @ show_int k"

definition message_record :: "i64 \<Rightarrow> 'd \<Rightarrow> (string \<times> ('d, 'f) avro) list" where
  "message_record message_id event_time =
     [(''message_id'', Long message_id), (''event_time'', Double event_time),
      (''content'', String (message_text (sint message_id)))]"

definition message_record_rd :: "i32 \<Rightarrow> 'd \<Rightarrow> (string \<times> ('d, 'f) avro) list" where
  "message_record_rd message_id event_time =
     [(''message_id'', Int_value message_id), (''event_time'', Double event_time),
      (''content'', String (message_text (sint message_id)))]"

section \<open>Properties\<close>

text \<open>
  The krafka clients never hand a server list with \<open>localhost\<close> to the resolver, and differ from the
  other clients' configuration in nothing else.
\<close>

lemma krafka_servers_ipv4:
  "\<not> contains ''localhost'' (cl_bootstrap (client_config_krafka e))
   \<and> (\<not> contains ''localhost'' (cl_bootstrap (client_config_rd e)) \<longrightarrow>
       client_config_krafka e = client_config_rd e)"
  using ipv4_bootstrap_free [of "cl_bootstrap (client_config_rd e)"]
  by (simp add: client_config_krafka_def client_config_rd_def ipv4_bootstrap_def)

lemma krafka_servers_ipv4_witness:
  "\<not> contains ''localhost'' (cl_bootstrap (client_config_krafka [''KAFKA_BOOTSTRAP_SERVERS'' \<mapsto> ''localhost:9094'']))
   \<and> client_config_krafka [''KAFKA_BOOTSTRAP_SERVERS'' \<mapsto> ''kafka:9092''] = client_config_rd [''KAFKA_BOOTSTRAP_SERVERS'' \<mapsto> ''kafka:9092'']"
proof -
  have "\<not> contains ''localhost'' (cl_bootstrap (client_config_rd [''KAFKA_BOOTSTRAP_SERVERS'' \<mapsto> ''kafka:9092'']))"
    by code_simp
  with krafka_servers_ipv4 show ?thesis by blast
qed

end
