(* ===== verification/Stream_Programs.thy ===== *)
theory Stream_Programs
  imports Krafka_Main Rdkafka_Main Message_Common
begin

text \<open>
  The generators and printers as programs, from the environment to what they send and print, and the two
  pipelines: generator, processor and printer on the topics that each of them computes for itself.
\<close>

section \<open>stream-test-krafka\<close>

text \<open>
  Creating a client may depend on how it is configured, subscribing on the topic. A generator is
  given with the topic that it sends to.
\<close>

definition generator_main ::
  "profile \<Rightarrow> env \<Rightarrow> bool \<Rightarrow> (string \<Rightarrow> bool) \<Rightarrow> i64 list list \<Rightarrow> (string \<times> generator) res"
where
  "generator_main pf e rt build draws =
     (let servers = unwrap_or (e ''BOOTSTRAP'') ''127.0.0.1:9094''; topic = generator_topic
      in and_then (run_generator pf rt (build servers) draws) (\<lambda>s. Ok (topic, s)))"

text \<open>The options of \<open>Consumer::builder()\<close>.\<close>

record consumer_builder =
  cb_servers :: string
  cb_group_id :: string
  cb_offset_reset :: offset_reset
  cb_auto_commit :: bool

definition printer_builder :: "string \<Rightarrow> consumer_builder" where
  "printer_builder servers =
     \<lparr>cb_servers = servers, cb_group_id = ''stream-test-krafka-consumer'',
      cb_offset_reset = Earliest, cb_auto_commit = True\<rparr>"

definition printer_main ::
  "env \<Rightarrow> bool \<Rightarrow> (consumer_builder \<Rightarrow> bool) \<Rightarrow> (string \<Rightarrow> bool) \<Rightarrow> u8 list option list option list \<Rightarrow>
   printed list \<times> panic option"
where
  "printer_main e rt build subscribe polls =
     (let servers = unwrap_or (e ''BOOTSTRAP'') ''127.0.0.1:9094''; topic = printer_topic
      in run_printer rt (build (printer_builder servers)) (subscribe topic) polls)"

section \<open>stream-test-rust\<close>

text \<open>\<open>ClientConfig\<close>: the keys and values in the order in which they are set.\<close>

type_synonym client_settings = "(string \<times> string) list"

definition generator_settings :: "string \<Rightarrow> client_settings" where
  "generator_settings servers =
     [(''bootstrap.servers'', servers), (''broker.address.family'', ''v4''), (''compression.type'', ''snappy''),
      (''batch.num.messages'', ''100000''), (''linger.ms'', ''20''),
      (''queue.buffering.max.messages'', ''2000000'')]"

definition generator_main_rd ::
  "env \<Rightarrow> (client_settings \<Rightarrow> bool) \<Rightarrow> i64 list list \<Rightarrow> (string \<times> u8 list list) res"
where
  "generator_main_rd e create draws =
     (let servers = unwrap_or (e ''KAFKA_BOOTSTRAP_SERVERS'') ''127.0.0.1:9094''; topic = generator_topic_rd e
      in and_then (run_generator_rd (create (generator_settings servers)) draws) (\<lambda>ps. Ok (topic, ps)))"

definition printer_settings :: "string \<Rightarrow> client_settings" where
  "printer_settings servers =
     [(''bootstrap.servers'', servers), (''broker.address.family'', ''v4''),
      (''group.id'', ''rust-test-consumer-group''), (''enable.auto.commit'', ''true''),
      (''auto.offset.reset'', ''earliest'')]"

definition printer_main_rd ::
  "profile \<Rightarrow> env \<Rightarrow> (client_settings \<Rightarrow> bool) \<Rightarrow> (string \<Rightarrow> bool) \<Rightarrow> u8 list option option list \<Rightarrow>
   printed list \<times> panic option"
where
  "printer_main_rd pf e create subscribe polls =
     (let servers = unwrap_or (e ''KAFKA_BOOTSTRAP_SERVERS'') ''127.0.0.1:9094''; topic = printer_topic_rd e
      in run_printer_rd pf (create (printer_settings servers)) (subscribe topic) polls)"

section \<open>What the generators send\<close>

lemma generate_all_sent:
  "generate_all pf draws s = Ok t \<Longrightarrow> gen_sent t = gen_sent s @ map (write_record write_varint) draws"
proof (induction draws arbitrary: s)
  case Nil
  then show ?case by simp
next
  case (Cons xs draws)
  then obtain u where "generate pf xs s = Ok u" "generate_all pf draws u = Ok t" by auto
  with Cons.IH [of u] show ?case by (auto simp: generate_def Let_def)
qed

lemma polled_drawn:
  assumes "set vs \<subseteq> Some ` set (map (write_record write_varint) draws)"
  shows "\<exists>yss. set yss \<subseteq> set draws \<and> vs = map (Some \<circ> write_record write_varint) yss"
  using assms
proof (induction vs)
  case Nil
  then show ?case by simp
next
  case (Cons v vs)
  then obtain yss ys where "set yss \<subseteq> set draws" "vs = map (Some \<circ> write_record write_varint) yss"
    "ys \<in> set draws" "v = Some (write_record write_varint ys)"
    by auto
  then show ?case by (intro exI [of _ "ys # yss"]) simp
qed

lemma outputs_drawn:
  "list_all drawn yss \<Longrightarrow>
   outputs pf (map (Some \<circ> write_record write_varint) yss) = map (\<lambda>ys. write_varint [] (sum_list ys)) yss"
  by (induction yss) (simp_all add: process_record_drawn)

lemma run_generator_sent:
  "run_generator pf rt pr draws = Ok s \<Longrightarrow> gen_sent s = map (write_record write_varint) draws"
  using generate_all_sent [of pf draws generator_init s]
  by (auto simp: run_generator_def generator_init_def)

lemma generator_main_sent:
  "generator_main pf e rt build draws = Ok (t, s) \<Longrightarrow>
   t = generator_topic \<and> gen_sent s = map (write_record write_varint) draws"
  by (auto simp: generator_main_def Let_def dest: run_generator_sent)

lemma generator_main_rd_sent:
  "generator_main_rd e create draws = Ok (t, ps) \<Longrightarrow>
   t = generator_topic_rd e \<and> ps = map (write_record write_varint_rd) draws"
  by (auto simp: generator_main_rd_def run_generator_rd_def generate_rd_def Let_def)

lemma finished_prints:
  assumes "worker_inv pf w" "phase w = Finished"
    and "polled w = map (Some \<circ> write_record write_varint) yss" "list_all drawn yss"
  shows "run_printer True True True [Some (map Some (sent w))] = (map (Sum_line \<circ> sum_list) yss, None)
    \<and> map (sint \<circ> sum_list) yss = map sum_of_drawn yss"
proof -
  have "sent w = map (write_varint []) (map sum_list yss)"
    using finished_pipeline [OF assms(1,2)] by (simp add: assms(3) outputs_drawn [OF assms(4)])
  then show ?thesis
    using print_polls_sums [of "[map sum_list yss]"] assms(4)
    by (simp add: run_printer_def comp_def list_all_iff add_all_drawn(2))
qed

lemma drawn_sum_small: "drawn xs \<Longrightarrow> small_i64 (sum_list xs)"
  using add_all_drawn(2,3) [of xs] by (simp add: small_i64_def)

text \<open>What the printer shows of the records that a rdkafka worker has enqueued.\<close>

lemma enqueued_prints:
  assumes "list_all2 (\<lambda>bytes (key, buf, enq). \<exists>s. sum_payload_rd pf bytes = Ok s \<and> buf = write_varint_rd [] s)
      (map (write_record write_varint_rd) yss) hs"
    and "list_all drawn yss"
  shows "print_messages_rd pf' (map (\<lambda>(key, buf, enq). Some (Some buf)) (filter (\<lambda>(key, buf, enq). enq) hs))
    = (map (\<lambda>(ys, _). Sum_line (sum_list ys)) (filter (\<lambda>(ys, key, buf, enq). enq) (zip yss hs)), None)"
  using assms
proof (induction yss arbitrary: hs)
  case Nil
  then show ?case by simp
next
  case (Cons ys yss)
  then obtain key enq hs' where hs: "hs = (key, write_varint_rd [] (sum_list ys), enq) # hs'"
    by (auto simp: list_all2_Cons1 sum_payload_rd_drawn)
  then have "print_messages_rd pf' (map (\<lambda>(key, buf, enq). Some (Some buf)) (filter (\<lambda>(key, buf, enq). enq) hs'))
    = (map (\<lambda>(ys, _). Sum_line (sum_list ys)) (filter (\<lambda>(ys, key, buf, enq). enq) (zip yss hs')), None)"
    using Cons.prems by (intro Cons.IH) simp_all
  then show ?case
    using read_varint_rd_write_varint_rd [of "sum_list ys" pf' "[]"] drawn_sum_small [of ys] Cons.prems(2)
    by (simp add: hs)
qed

lemma seen_drawn:
  assumes "set bs \<subseteq> set (map (write_record write_varint_rd) draws)"
  shows "\<exists>yss. set yss \<subseteq> set draws \<and> bs = map (write_record write_varint_rd) yss"
  using assms
proof (induction bs)
  case Nil
  then show ?case by simp
next
  case (Cons b bs)
  then obtain yss ys where "set yss \<subseteq> set draws" "bs = map (write_record write_varint_rd) yss"
    "ys \<in> set draws" "b = write_record write_varint_rd ys"
    by auto
  then show ?case by (intro exI [of _ "ys # yss"]) simp
qed

lemma read_config_stream:
  assumes "read_config e = Ok c" "\<not> var_is_ok e ''BENCHMARK''"
  shows "input_topic c = generator_topic \<and> output_topic c = printer_topic
    \<and> bootstrap c = unwrap_or (e ''BOOTSTRAP'') ''127.0.0.1:9094'' \<and> \<not> is_benchmark c \<and> \<not> load_phase c"
  using assms
  by (auto simp: read_config_def phase2_topics_def load_phase_runs_def generator_topic_def printer_topic_def Let_def)

section \<open>Properties\<close>

text \<open>
  C8: The krafka pipeline without \<open>BENCHMARK\<close>, all programs in one environment: the generator writes to the topic
  that the processor reads, on the servers that the processor uses; the printer connects to the same servers
  and subscribes to the topic that the processor writes; when the processor has returned, without a load phase and without a result, the printer shows for
  each worker that was not taken down by a panic the exact sums of the draws that it was given.
\<close>

theorem krafka_pipeline:
  assumes "generator_main pf (out_env out) rt build draws = Ok (t, s)" "list_all drawn draws"
    and "\<not> var_is_ok (out_env out) ''BENCHMARK''" "read_config (out_env out) = Ok c"
    and "krafka_main pf out = Returned loaded (g, ws) lines" "w \<in> set ws" "\<not> is_crashed (phase w)"
    and "set (polled w) \<subseteq> Some ` set (broker (input_topic c))" "set (broker t) \<subseteq> set (gen_sent s)"
  shows "t = input_topic c \<and> loaded = None \<and> lines = []
    \<and> generator_main pf (out_env out) True (\<lambda>servers. servers = bootstrap c) draws = Ok (t, s)
    \<and> (\<exists>yss. set yss \<subseteq> set draws \<and> polled w = map (Some \<circ> write_record write_varint) yss
        \<and> printer_main (out_env out) True (\<lambda>b. cb_servers b = bootstrap c) (\<lambda>topic. topic = output_topic c)
            [Some (map Some (sent w))] = (map (Sum_line \<circ> sum_list) yss, None)
        \<and> map (sint \<circ> sum_list) yss = map sum_of_drawn yss)"
proof -
  note gen = generator_main_sent [OF assms(1)] and conf = read_config_stream [OF assms(4,3)]
  have run: "run_load_phase out c = Ok (Some loaded)" "run_phase2 pf out c = Some (g, ws)" "all_joined (g, ws)"
    "final_lines pf (out_f64 out) (is_benchmark c) (out_clock out) (start_nanos g) = Ok lines"
    using krafka_main_Returned [OF assms(5)] assms(4) by auto
  have same_servers: "generator_main pf (out_env out) True (\<lambda>servers. servers = bootstrap c) draws = Ok (t, s)"
    using assms(1) conf by (auto simp: generator_main_def run_generator_def expect_def Let_def split: if_splits)
  have quiet: "loaded = None" "lines = []"
    using run(1,4) conf by (simp_all add: run_load_phase_def final_lines_quiet)
  have inv: "worker_inv pf w" "phase w = Finished"
    using reachable_worker_inv [OF run_phase2_reachable [OF run(2)] assms(6)] run(3) assms(6,7)
    by (auto simp: all_joined_def list_all_iff)
  have "set (broker (input_topic c)) \<subseteq> set (map (write_record write_varint) draws)"
    using assms(9) gen conf by simp
  with assms(8) have "set (polled w) \<subseteq> Some ` set (map (write_record write_varint) draws)" by blast
  from polled_drawn [OF this] obtain yss
    where yss: "set yss \<subseteq> set draws" "polled w = map (Some \<circ> write_record write_varint) yss" by auto
  then have "list_all drawn yss" using assms(2) by (auto simp: list_all_iff)
  note prints = finished_prints [OF inv yss(2) this]
  have "printer_main (out_env out) True (\<lambda>b. cb_servers b = bootstrap c) (\<lambda>topic. topic = output_topic c)
      [Some (map Some (sent w))] = run_printer True True True [Some (map Some (sent w))]"
    using conf by (simp add: printer_main_def printer_builder_def Let_def)
  with prints yss gen conf quiet same_servers show ?thesis by auto
qed

text \<open>A run over one record in the default environment but for the number of workers.\<close>

definition stream_outside :: "unit outside" where
  "stream_outside =
     bench_outside \<lparr>f64_of_u64 = (\<lambda>_. ()), f64_div = (\<lambda>_ _. ()), f64_billion = (), f64_one = ()\<rparr>
       False [] sample_labels\<lparr>out_env := [''NUM_WORKERS'' \<mapsto> ''1'']\<rparr>"

definition stream_config_one :: stream_config where
  "stream_config_one =
     \<lparr>bootstrap = ''127.0.0.1:9094'', num_workers = 1, acks_level = Acks_None, idempotent = False,
      load_phase = False, input_topic = ''integer-list-input'', output_topic = ''integer-sum-output'',
      is_benchmark = False\<rparr>"

lemma stream_read_config: "read_config (out_env stream_outside) = Ok stream_config_one"
  by (simp add: stream_outside_def stream_config_one_def read_config_def phase2_topics_def load_phase_runs_def
      var_is_ok_def unwrap_or_def durable_acks_def expect_some_def parse_usize_def char_digit_def)

lemma sample_joined: "all_joined (sample 18)" "\<not> is_crashed (phase (sample_worker 18))"
  "polled (sample_worker 18) = [Some (write_record write_varint [3, 4])]"
  by code_simp+

lemma stream_main: "krafka_main Debug stream_outside = Returned None (sample 18) []"
proof -
  have "run_phase2 Debug stream_outside stream_config_one = Some (sample 18)"
    using sample_runs
    by (auto simp: run_phase2_def stream_outside_def stream_config_one_def sample_def bench_outside_def sample_labels_def)
  moreover have "run_load_phase stream_outside stream_config_one = Ok (Some None)"
    by (simp add: run_load_phase_def stream_config_one_def)
  moreover have "\<not> is_benchmark stream_config_one" by (simp add: stream_config_one_def)
  ultimately show ?thesis
    by (simp add: krafka_main_def stream_read_config sample_joined final_lines_quiet)
qed

theorem krafka_pipeline_witness:
  "printer_main [''NUM_WORKERS'' \<mapsto> ''1''] True (\<lambda>b. cb_servers b = ''127.0.0.1:9094'')
     (\<lambda>topic. topic = ''integer-sum-output'') [Some (map Some (sent (sample_worker 18)))] = ([Sum_line 7], None)"
proof -
  have env: "out_env stream_outside = [''NUM_WORKERS'' \<mapsto> ''1'']" by (simp add: stream_outside_def)
  obtain s where s: "generator_main Debug (out_env stream_outside) True (\<lambda>_. True) [[3, 4]] = Ok (generator_topic, s)"
    "gen_sent s = [write_record write_varint [3, 4]]"
    by (simp add: generator_main_def run_generator_def expect_def generate_def Let_def add_u64_def generator_init_def)
  have main: "krafka_main Debug stream_outside = Returned None (fst (sample 18), snd (sample 18)) []"
    by (simp add: stream_main)
  have "list_all drawn [[3, 4]]" by (simp add: drawn_def)
  from krafka_pipeline [OF s(1) this _ stream_read_config main sample_in sample_joined(2),
      of "\<lambda>_. [write_record write_varint [3, 4]]"]
  obtain yss where yss: "set yss \<subseteq> {[3, 4]}" "length yss = 1"
    "printer_main (out_env stream_outside) True (\<lambda>b. cb_servers b = bootstrap stream_config_one)
       (\<lambda>topic. topic = output_topic stream_config_one) [Some (map Some (sent (sample_worker 18)))]
     = (map (Sum_line \<circ> sum_list) yss, None)"
    using s(2) sample_joined(3) by (fastforce simp: env var_is_ok_def)
  then show ?thesis by (cases yss) (auto simp: env stream_config_one_def)
qed

text \<open>
  C12: The rdkafka pipeline, once \<open>INPUT_TOPIC\<close> and \<open>OUTPUT_TOPIC\<close> name the benchmark topics (the processor reads no
  others): in every state of a run the printer shows, for each worker, the exact sums of the draws that it has
  handled, less those whose send found the queue full; and the generator's topic is the processor's only if
  \<open>INPUT_TOPIC\<close> says so.
\<close>

theorem rdkafka_pipeline:
  assumes "generator_main_rd (rd_env out) create draws = Ok (t, ps)" "list_all drawn draws"
    and "read_config_rd (rd_group_nanos out) (rd_env out) = Ok c"
    and "rd_env out ''OUTPUT_TOPIC'' = Some ''integer-sum-output-benchmark''"
    and "run_workers_rd pf out c = Some (g, ws)" "w \<in> set ws" "t = in_topic_rd c"
    and "set (seen w) \<subseteq> set (broker (in_topic_rd c))" "set (broker t) \<subseteq> set ps"
  shows "rd_env out ''INPUT_TOPIC'' = Some ''integer-list-input-benchmark''
    \<and> generator_main_rd (rd_env out) (\<lambda>cs. (''bootstrap.servers'', bootstrap_servers c) \<in> set cs) draws = Ok (t, ps)
    \<and> (\<exists>yss. set yss \<subseteq> set draws \<and> seen w = map (write_record write_varint_rd) yss
        \<and> printer_main_rd pf (rd_env out) (\<lambda>cs. (''bootstrap.servers'', bootstrap_servers c) \<in> set cs)
            (\<lambda>topic. topic = out_topic_rd c)
            (map (\<lambda>(key, buf, enq). Some (Some buf)) (filter (\<lambda>(key, buf, enq). enq) (handled w)))
          = (map (\<lambda>(ys, _). Sum_line (sum_list ys)) (filter (\<lambda>(ys, key, buf, enq). enq) (zip yss (handled w))), None)
        \<and> map (sint \<circ> sum_list) yss = map sum_of_drawn yss)"
proof -
  note gen = generator_main_rd_sent [OF assms(1)]
  have conf: "in_topic_rd c = ''integer-list-input-benchmark''" "out_topic_rd c = ''integer-sum-output-benchmark''"
    "bootstrap_servers c = unwrap_or (rd_env out ''KAFKA_BOOTSTRAP_SERVERS'') ''127.0.0.1:9094''"
    using assms(3) by (auto simp: read_config_rd_def)
  have topic: "rd_env out ''INPUT_TOPIC'' = Some ''integer-list-input-benchmark''"
    using assms(7) gen conf(1) by (auto simp: generator_topic_rd_def unwrap_or_def split: option.splits)
  have same_servers: "generator_main_rd (rd_env out) (\<lambda>cs. (''bootstrap.servers'', bootstrap_servers c) \<in> set cs) draws
      = Ok (t, ps)"
    using assms(1) conf(3)
    by (auto simp: generator_main_rd_def run_generator_rd_def generator_settings_def expect_def Let_def split: if_splits)
  have "worker_inv_rd pf w"
    using reachable_rd_inv(1) [OF run_workers_rd_reachable [OF assms(5)]] assms(6) by (simp add: list_all_iff)
  then have sums: "sends_sum_rd pf w" by (simp add: worker_inv_rd_def)
  have "set (seen w) \<subseteq> set (map (write_record write_varint_rd) draws)"
    using assms(7-9) gen by auto
  from seen_drawn [OF this] obtain yss
    where yss: "set yss \<subseteq> set draws" "seen w = map (write_record write_varint_rd) yss" by auto
  have drawn: "list_all drawn yss" using yss(1) assms(2) by (auto simp: list_all_iff)
  have "printer_main_rd pf (rd_env out) (\<lambda>cs. (''bootstrap.servers'', bootstrap_servers c) \<in> set cs)
      (\<lambda>topic. topic = out_topic_rd c) polls = print_messages_rd pf polls" for polls
    using assms(4) conf
    by (simp add: printer_main_rd_def run_printer_rd_def printer_settings_def printer_topic_rd_def
        unwrap_or_def Let_def)
  moreover have "map (sint \<circ> sum_list) yss = map sum_of_drawn yss"
    using drawn by (simp add: list_all_iff add_all_drawn(2))
  ultimately show ?thesis
    using topic same_servers yss enqueued_prints [OF sums [unfolded sends_sum_rd_def yss(2)] drawn] by auto
qed

text \<open>The sample run of the rdkafka worker, in an environment that names its topics.\<close>

definition stream_outside_rd :: "unit outside_rd" where
  "stream_outside_rd = full_outside sample_labels_rd
     \<lparr>rd_env := [''NUM_WORKERS'' \<mapsto> ''1'', ''INPUT_TOPIC'' \<mapsto> ''integer-list-input-benchmark'',
                ''OUTPUT_TOPIC'' \<mapsto> ''integer-sum-output-benchmark'']\<rparr>"

lemma stream_read_config_rd:
  "\<exists>c. read_config_rd (rd_group_nanos stream_outside_rd) (rd_env stream_outside_rd) = Ok c \<and> num_workers_rd c = 1
    \<and> in_topic_rd c = ''integer-list-input-benchmark'' \<and> out_topic_rd c = ''integer-sum-output-benchmark''
    \<and> bootstrap_servers c = ''127.0.0.1:9094''"
  by (simp add: stream_outside_rd_def read_config_rd_def unwrap_or_def var_is_ok_def expect_some_def
      parse_usize_def char_digit_def)

lemma sample_rd_worker:
  "seen (hd (snd sample_rd)) = [write_record write_varint_rd [3, 4]]"
  "length (handled (hd (snd sample_rd))) = 1" "snd (snd (hd (handled (hd (snd sample_rd)))))" "snd sample_rd \<noteq> []"
  by code_simp+

theorem rdkafka_pipeline_witness:
  "printer_main_rd Release (rd_env stream_outside_rd) (\<lambda>cs. (''bootstrap.servers'', ''127.0.0.1:9094'') \<in> set cs)
     (\<lambda>topic. topic = ''integer-sum-output-benchmark'')
     (map (\<lambda>(key, buf, enq). Some (Some buf)) (filter (\<lambda>(key, buf, enq). enq) (handled (hd (snd sample_rd)))))
   = ([Sum_line 7], None)"
proof -
  let ?w = "hd (snd sample_rd)"
  obtain c where c: "read_config_rd (rd_group_nanos stream_outside_rd) (rd_env stream_outside_rd) = Ok c"
    "num_workers_rd c = 1" "in_topic_rd c = ''integer-list-input-benchmark''"
    "out_topic_rd c = ''integer-sum-output-benchmark''" "bootstrap_servers c = ''127.0.0.1:9094''"
    using stream_read_config_rd by blast
  have gen: "generator_main_rd (rd_env stream_outside_rd) (\<lambda>_. True) [[3, 4]]
      = Ok (in_topic_rd c, [write_record write_varint_rd [3, 4]])"
    by (simp add: generator_main_rd_def run_generator_rd_def generate_rd_def generator_topic_rd_def unwrap_or_def
        expect_def Let_def stream_outside_rd_def c(3))
  have run: "run_workers_rd Release stream_outside_rd c = Some (fst sample_rd, snd sample_rd)"
    using sample_rd_runs by (auto simp: run_workers_rd_def stream_outside_rd_def full_outside_def sample_rd_def c(2))
  have "list_all drawn [[3, 4]]" by (simp add: drawn_def)
  from rdkafka_pipeline [OF gen this c(1) _ run hd_in_set [OF sample_rd_worker(4)] refl,
      of "\<lambda>_. [write_record write_varint_rd [3, 4]]"]
  obtain yss where yss: "set yss \<subseteq> {[3, 4]}" "length yss = 1"
    "printer_main_rd Release (rd_env stream_outside_rd) (\<lambda>cs. (''bootstrap.servers'', bootstrap_servers c) \<in> set cs)
       (\<lambda>topic. topic = out_topic_rd c)
       (map (\<lambda>(key, buf, enq). Some (Some buf)) (filter (\<lambda>(key, buf, enq). enq) (handled ?w)))
     = (map (\<lambda>(ys, _). Sum_line (sum_list ys)) (filter (\<lambda>(ys, key, buf, enq). enq) (zip yss (handled ?w))), None)"
    using sample_rd_worker(1) by (fastforce simp: stream_outside_rd_def)
  obtain key buf where h: "handled ?w = [(key, buf, True)]"
    using sample_rd_worker(2,3) by (cases "handled ?w") auto
  from yss show ?thesis by (cases yss) (auto simp: h c)
qed

end
