(* ===== verification/Message_Clients.thy ===== *)
theory Message_Clients
  imports Message_Common Krafka_Varint
begin

text \<open>
  The message clients: the producers of \<open>kafka-test-krafka/src/producer.rs\<close> and
  \<open>kafka-test-rust/src/producer.rs\<close> and the consumers of the two \<open>consumer.rs\<close>. The Avro codec, the
  clock, the outcome of each send and which branch of \<open>select!\<close> is taken are parameters. A producer's
  run is the record of what it sent and logged, or the panic that ended it; a consumer's run is its
  log lines and the panic that ended it, if any.
\<close>

section \<open>Log lines\<close>

datatype 'd log =
    Sent_message i64 nat
  | Send_error
  | New_message i64 string 'd
  | Latency 'd
  | Unexpected_value
  | Deserialization_error
  | No_payload
  | Poll_error
  | Stream_error
  | Connected
  | Metadata_error
  | Shutting_down
  | Flush_failed
  | Telemetry
  | Close_failed

section \<open>Producers\<close>

text \<open>
  What one iteration meets: the clock (\<open>None\<close> before the epoch), whether the send succeeds, and
  whether \<open>ctrl_c\<close> rather than the two-second sleep ends the iteration.
\<close>

record 'd tick =
  tick_time :: "'d option"
  tick_sent :: bool
  tick_ctrl_c :: bool

record 'd producer_run =
  run_id :: i64
  run_payloads :: "u8 list list"
  run_log :: "'d log list"

definition producer_run_init :: "'d producer_run" where
  "producer_run_init = \<lparr>run_id = 0, run_payloads = [], run_log = []\<rparr>"

text \<open>
  The body of the krafka producer's loop up to the \<open>select!\<close>. \<open>record_ok\<close> is whether \<open>Record::new\<close> accepts
  the schema, \<open>encode\<close> is \<open>to_avro_datum\<close> on the fields put.
\<close>

definition send_message ::
  "profile \<Rightarrow> bool \<Rightarrow> ((string \<times> ('d, 'f) avro) list \<Rightarrow> u8 list option) \<Rightarrow> 'd tick \<Rightarrow>
   'd producer_run \<Rightarrow> 'd producer_run res"
where
  "send_message pf record_ok encode t r =
     and_then (expect_some ''Time went backwards'' (tick_time t)) (\<lambda>event_time.
     and_then (expect ''Schema is not a Record'' record_ok) (\<lambda>_.
     and_then (expect_some ''Failed to serialize to Avro'' (encode (message_record (run_id r) event_time)))
       (\<lambda>payload.
     let line = (if tick_sent t then Sent_message (run_id r) (length payload) else Send_error) in
     and_then (add_i64 pf (run_id r) 1) (\<lambda>next_id.
       Ok \<lparr>run_id = next_id, run_payloads = run_payloads r @ [payload],
           run_log = run_log r @ [line]\<rparr>))))"

text \<open>The loop: the run it ends with when \<open>ctrl_c\<close> came (\<open>True\<close>) or the ticks are used up (\<open>False\<close>).\<close>

fun producer_loop ::
  "profile \<Rightarrow> bool \<Rightarrow> ((string \<times> ('d, 'f) avro) list \<Rightarrow> u8 list option) \<Rightarrow> 'd tick list \<Rightarrow>
   'd producer_run \<Rightarrow> ('d producer_run \<times> bool) res"
where
  "producer_loop pf record_ok encode [] r = Ok (r, False)"
| "producer_loop pf record_ok encode (t # ts) r =
     and_then (send_message pf record_ok encode t r) (\<lambda>r.
       if tick_ctrl_c t then Ok (r\<lparr>run_log := run_log r @ [Shutting_down]\<rparr>, True)
       else producer_loop pf record_ok encode ts r)"

text \<open>After the loop: flush (its error is logged), telemetry, close.\<close>

definition producer_main ::
  "profile \<Rightarrow> bool \<Rightarrow> bool \<Rightarrow> bool \<Rightarrow> ((string \<times> ('d, 'f) avro) list \<Rightarrow> u8 list option) \<Rightarrow>
   'd tick list \<Rightarrow> ('d producer_run \<times> bool) res"
where
  "producer_main pf build_ok flush_ok record_ok encode ts =
     and_then (expect ''Failed to create producer'' build_ok) (\<lambda>_.
     and_then (producer_loop pf record_ok encode ts producer_run_init) (\<lambda>(r, stopped).
       Ok (if stopped
           then r\<lparr>run_log := run_log r @ (if flush_ok then [] else [Flush_failed]) @ [Telemetry]\<rparr>
           else r, stopped)))"

text \<open>
  The rdkafka producer counts in an \<open>i32\<close> (the type an unannotated integer defaults to) and puts
  it as such into the record.
\<close>

record 'd producer_run_rd =
  rd_id :: i32
  rd_payloads :: "u8 list list"
  rd_log :: "'d log list"

definition producer_run_rd_init :: "'d producer_run_rd" where
  "producer_run_rd_init = \<lparr>rd_id = 0, rd_payloads = [], rd_log = []\<rparr>"

definition add_i32 :: "profile \<Rightarrow> i32 \<Rightarrow> i32 \<Rightarrow> i32 res" where
  "add_i32 pf a b =
     (if pf = Debug \<and> \<not> (- (2 ^ 31) \<le> sint a + sint b \<and> sint a + sint b < 2 ^ 31)
      then Panic Add_overflow else Ok (a + b))"

definition send_message_rd ::
  "profile \<Rightarrow> bool \<Rightarrow> ((string \<times> ('d, 'f) avro) list \<Rightarrow> u8 list option) \<Rightarrow> 'd tick \<Rightarrow>
   'd producer_run_rd \<Rightarrow> 'd producer_run_rd res"
where
  "send_message_rd pf record_ok encode t r =
     and_then (expect_some ''Time went backwards'' (tick_time t)) (\<lambda>event_time.
     and_then (expect ''unwrap'' record_ok) (\<lambda>_.
     and_then (expect_some ''Failed to serialize to Avro'' (encode (message_record_rd (rd_id r) event_time)))
       (\<lambda>payload.
     let line = (if tick_sent t then Sent_message (scast (rd_id r)) (length payload) else Send_error) in
     and_then (add_i32 pf (rd_id r) 1) (\<lambda>next_id.
       Ok \<lparr>rd_id = next_id, rd_payloads = rd_payloads r @ [payload], rd_log = rd_log r @ [line]\<rparr>))))"

fun producer_loop_rd ::
  "profile \<Rightarrow> bool \<Rightarrow> ((string \<times> ('d, 'f) avro) list \<Rightarrow> u8 list option) \<Rightarrow> 'd tick list \<Rightarrow>
   'd producer_run_rd \<Rightarrow> ('d producer_run_rd \<times> bool) res"
where
  "producer_loop_rd pf record_ok encode [] r = Ok (r, False)"
| "producer_loop_rd pf record_ok encode (t # ts) r =
     and_then (send_message_rd pf record_ok encode t r) (\<lambda>r.
       if tick_ctrl_c t then Ok (r\<lparr>rd_log := rd_log r @ [Shutting_down]\<rparr>, True)
       else producer_loop_rd pf record_ok encode ts r)"

definition producer_main_rd ::
  "profile \<Rightarrow> bool \<Rightarrow> bool \<Rightarrow> ((string \<times> ('d, 'f) avro) list \<Rightarrow> u8 list option) \<Rightarrow>
   'd tick list \<Rightarrow> ('d producer_run_rd \<times> bool) res"
where
  "producer_main_rd pf create_ok record_ok encode ts =
     and_then (expect ''Producer creation error'' create_ok) (\<lambda>_.
       producer_loop_rd pf record_ok encode ts producer_run_rd_init)"

section \<open>Consumers\<close>

text \<open>
  The value of one record: decode it (\<open>decode\<close> is \<open>from_avro_datum\<close>, \<open>None\<close> an error), take the fields,
  read the clock, log two lines.
\<close>

definition log_message ::
  "('d, 'f) floats \<Rightarrow> 'd option \<Rightarrow> (string \<times> ('d, 'f) avro) list \<Rightarrow> 'd log list \<times> panic option"
where
  "log_message fl now entries =
     (let message_id = field_message_id entries;
          event_time = field_event_time fl entries;
          content = field_content entries
      in case now of
           None \<Rightarrow> ([], Some (Expect_failed ''Time went backwards''))
         | Some received_time \<Rightarrow>
             ([New_message message_id content event_time,
               Latency (f64_minus fl received_time event_time)], None))"

definition consume_payload ::
  "('d, 'f) floats \<Rightarrow> (u8 list \<Rightarrow> ('d, 'f) avro option) \<Rightarrow> 'd option \<Rightarrow> u8 list \<Rightarrow>
   'd log list \<times> panic option"
where
  "consume_payload fl decode now bytes =
     (case decode bytes of
        Some (Record entries) \<Rightarrow> log_message fl now entries
      | Some _ \<Rightarrow> ([Unexpected_value], None)
      | None \<Rightarrow> ([Deserialization_error], None))"

text \<open>The krafka consumer's \<open>for record in records\<close>; a record without a value is passed over.\<close>

fun consume_records ::
  "('d, 'f) floats \<Rightarrow> (u8 list \<Rightarrow> ('d, 'f) avro option) \<Rightarrow> ('d option \<times> u8 list option) list \<Rightarrow>
   'd log list \<times> panic option"
where
  "consume_records fl decode [] = ([], None)"
| "consume_records fl decode ((now, None) # records) = consume_records fl decode records"
| "consume_records fl decode ((now, Some bytes) # records) =
     (case consume_payload fl decode now bytes of
        (lines, Some p) \<Rightarrow> (lines, Some p)
      | (lines, None) \<Rightarrow> (case consume_records fl decode records of (lines', e) \<Rightarrow> (lines @ lines', e)))"

text \<open>
  What the \<open>select!\<close> of the loop yields: a poll with its records (and the clock at each), a failed poll,
  or \<open>ctrl_c\<close>. A poll error is logged and the loop goes on.
\<close>

datatype 'd consumer_event =
    Polled "('d option \<times> u8 list option) list"
  | Poll_failed
  | Ctrl_c

fun consumer_loop ::
  "('d, 'f) floats \<Rightarrow> (u8 list \<Rightarrow> ('d, 'f) avro option) \<Rightarrow> bool \<Rightarrow> 'd consumer_event list \<Rightarrow>
   'd log list \<times> panic option"
where
  "consumer_loop fl decode close_ok [] = ([], None)"
| "consumer_loop fl decode close_ok (Ctrl_c # events) =
     (Shutting_down # Telemetry # (if close_ok then [] else [Close_failed]), None)"
| "consumer_loop fl decode close_ok (Poll_failed # events) =
     (case consumer_loop fl decode close_ok events of (lines, e) \<Rightarrow> (Poll_error # lines, e))"
| "consumer_loop fl decode close_ok (Polled records # events) =
     (case consume_records fl decode records of
        (lines, Some p) \<Rightarrow> (lines, Some p)
      | (lines, None) \<Rightarrow>
          (case consumer_loop fl decode close_ok events of (lines', e) \<Rightarrow> (lines @ lines', e)))"

text \<open>
  The rdkafka consumer runs \<open>try_for_each\<close> over a stream of messages: the closure always succeeds, an
  error item of the stream ends the run; a message without payload is logged.
\<close>

datatype 'd stream_event =
    Item "'d option" "u8 list option"
  | Item_failed
  | Stream_ctrl_c

fun stream_loop ::
  "('d, 'f) floats \<Rightarrow> (u8 list \<Rightarrow> ('d, 'f) avro option) \<Rightarrow> 'd stream_event list \<Rightarrow>
   'd log list \<times> panic option"
where
  "stream_loop fl decode [] = ([], None)"
| "stream_loop fl decode (Stream_ctrl_c # events) = ([Shutting_down], None)"
| "stream_loop fl decode (Item_failed # events) = ([Stream_error], None)"
| "stream_loop fl decode (Item now None # events) =
     (case stream_loop fl decode events of (lines, e) \<Rightarrow> (No_payload # lines, e))"
| "stream_loop fl decode (Item now (Some bytes) # events) =
     (case consume_payload fl decode now bytes of
        (lines, Some p) \<Rightarrow> (lines, Some p)
      | (lines, None) \<Rightarrow> (case stream_loop fl decode events of (lines', e) \<Rightarrow> (lines @ lines', e)))"

text \<open>The two \<open>main\<close>s after the schema and the environment: connect, subscribe, consume.\<close>

definition consumer_main ::
  "bool \<Rightarrow> bool \<Rightarrow> ('d, 'f) floats \<Rightarrow> (u8 list \<Rightarrow> ('d, 'f) avro option) \<Rightarrow> bool \<Rightarrow>
   'd consumer_event list \<Rightarrow> 'd log list \<times> panic option"
where
  "consumer_main build_ok subscribe_ok fl decode close_ok events =
     (if \<not> build_ok then ([], Some (Expect_failed ''Failed to create consumer''))
      else if \<not> subscribe_ok then ([], Some (Expect_failed ''Failed to subscribe to topic''))
      else consumer_loop fl decode close_ok events)"

definition consumer_main_rd ::
  "bool \<Rightarrow> bool \<Rightarrow> bool \<Rightarrow> ('d, 'f) floats \<Rightarrow> (u8 list \<Rightarrow> ('d, 'f) avro option) \<Rightarrow>
   'd stream_event list \<Rightarrow> 'd log list \<times> panic option"
where
  "consumer_main_rd create_ok subscribe_ok metadata_ok fl decode events =
     (if \<not> create_ok then ([], Some (Expect_failed ''Failed to create client''))
      else if \<not> subscribe_ok then ([], Some (Expect_failed ''Can't subscribe to specified topic''))
      else (case stream_loop fl decode events of
              (lines, e) \<Rightarrow> ((if metadata_ok then Connected else Metadata_error) # lines, e)))"

section \<open>The producer's run\<close>

text \<open>
  The iterations a run makes: up to and with the first whose \<open>select!\<close> is won by \<open>ctrl_c\<close>; the payload
  and the log line of iteration \<open>k\<close>.
\<close>

definition ticks_taken :: "'d tick list \<Rightarrow> 'd tick list" where
  "ticks_taken ts =
     (let before = takeWhile (\<lambda>t. \<not> tick_ctrl_c t) ts
      in before @ take 1 (drop (length before) ts))"

definition nth_payload ::
  "((string \<times> ('d, 'f) avro) list \<Rightarrow> u8 list option) \<Rightarrow> nat \<times> 'd tick \<Rightarrow> u8 list"
where
  "nth_payload encode = (\<lambda>(k, t). the (encode (message_record (word_of_nat k) (the (tick_time t)))))"

definition nth_line ::
  "((string \<times> ('d, 'f) avro) list \<Rightarrow> u8 list option) \<Rightarrow> nat \<times> 'd tick \<Rightarrow> 'd log"
where
  "nth_line encode = (\<lambda>(k, t).
     if tick_sent t then Sent_message (word_of_nat k) (length (nth_payload encode (k, t)))
     else Send_error)"

lemma ticks_taken_simps [simp]:
  "ticks_taken [] = []"
  "ticks_taken (t # ts) = t # (if tick_ctrl_c t then [] else ticks_taken ts)"
  by (simp_all add: ticks_taken_def Let_def)

lemma add_one_word_of_nat:
  "int k + 1 < 2 ^ 63 \<Longrightarrow> add_i64 pf (word_of_nat k) 1 = Ok (word_of_nat (Suc k))"
proof -
  assume k: "int k + 1 < 2 ^ 63"
  then have "sint (word_of_nat k :: i64) = int k"
    by (simp add: signed_of_nat signed_take_bit_int_eq_self)
  with k have "in_i64 (sint (word_of_nat k :: i64) + sint (1 :: i64))"
    by (simp add: in_i64_def)
  then show ?thesis by (simp add: add_i64_in_range add.commute)
qed

lemma producer_loop_sends:
  assumes "list_all (\<lambda>t. tick_time t \<noteq> None) ts"
    and "\<And>n time. encode (message_record n time) \<noteq> None"
    and "run_id r = word_of_nat k"
    and "int k + int (length ts) < 2 ^ 63"
  shows "producer_loop pf True encode ts r =
    Ok (\<lparr>run_id = word_of_nat (k + length (ticks_taken ts)),
         run_payloads = run_payloads r @ map (nth_payload encode) (enumerate k (ticks_taken ts)),
         run_log = run_log r @ map (nth_line encode) (enumerate k (ticks_taken ts))
                   @ (if list_ex tick_ctrl_c ts then [Shutting_down] else [])\<rparr>, list_ex tick_ctrl_c ts)"
  using assms
proof (induction ts arbitrary: r k)
  case Nil
  then show ?case by simp
next
  case (Cons t ts)
  obtain time where time: "tick_time t = Some time" using Cons.prems(1) by auto
  obtain payload where payload: "encode (message_record (word_of_nat k) time) = Some payload"
    using Cons.prems(2) by blast
  have step: "send_message pf True encode t r =
      Ok \<lparr>run_id = word_of_nat (Suc k), run_payloads = run_payloads r @ [nth_payload encode (k, t)],
          run_log = run_log r @ [nth_line encode (k, t)]\<rparr>"
    using Cons.prems(3,4) time payload
    by (simp add: send_message_def expect_def expect_some_def nth_payload_def nth_line_def
        add_one_word_of_nat Let_def del: of_nat_Suc)
  show ?case
  proof (cases "tick_ctrl_c t")
    case True
    then show ?thesis using step by simp
  next
    case False
    let ?r = "\<lparr>run_id = word_of_nat (Suc k), run_payloads = run_payloads r @ [nth_payload encode (k, t)],
          run_log = run_log r @ [nth_line encode (k, t)]\<rparr>"
    have "producer_loop pf True encode ts ?r =
      Ok (\<lparr>run_id = word_of_nat (Suc k + length (ticks_taken ts)),
         run_payloads = run_payloads ?r @ map (nth_payload encode) (enumerate (Suc k) (ticks_taken ts)),
         run_log = run_log ?r @ map (nth_line encode) (enumerate (Suc k) (ticks_taken ts))
                   @ (if list_ex tick_ctrl_c ts then [Shutting_down] else [])\<rparr>, list_ex tick_ctrl_c ts)"
      using Cons.prems by (intro Cons.IH) simp_all
    then show ?thesis using step False by simp
  qed
qed
section \<open>What a consumer reads off a produced message\<close>

lemmas field_defs = field_message_id_def field_event_time_def field_content_def

lemma message_record_read [simp]:
  "field_message_id (message_record n time) = n"
  "field_event_time fl (message_record n time) = time"
  "field_content (message_record n time) = message_text (sint n)"
  by (simp_all add: field_defs message_record_def)

definition received_lines :: "('d, 'f) floats \<Rightarrow> 'd \<Rightarrow> i64 \<times> 'd \<Rightarrow> 'd log list" where
  "received_lines fl now = (\<lambda>(n, time).
     [New_message n (message_text (sint n)) time, Latency (f64_minus fl now time)])"

definition reported_lines :: "('d, 'f) floats \<Rightarrow> 'd \<Rightarrow> 'd tick list \<Rightarrow> 'd log list" where
  "reported_lines fl now ts = concat (map (received_lines fl now)
     (map (\<lambda>(k, t). (of_nat k, the (tick_time t))) (enumerate 0 (ticks_taken ts))))"

lemma consume_payload_produced:
  "decode bytes = Some (Record (message_record n time)) \<Longrightarrow>
   consume_payload fl decode (Some now) bytes = (received_lines fl now (n, time), None)"
  by (simp add: consume_payload_def log_message_def received_lines_def)

lemma consume_records_produced:
  "list_all2 (\<lambda>bytes (n, time). decode bytes = Some (Record (message_record n time))) payloads sent \<Longrightarrow>
   consume_records fl decode (map (\<lambda>bytes. (Some now, Some bytes)) payloads)
   = (concat (map (received_lines fl now) sent), None)"
  by (induction rule: list_all2_induct) (auto simp: consume_payload_produced split: prod.splits)

lemma consumer_loop_produced:
  "list_all2 (\<lambda>bytes (n, time). decode bytes = Some (Record (message_record n time)))
     (concat batches) sent \<Longrightarrow>
   consumer_loop fl decode close_ok
     (map (\<lambda>payloads. Polled (map (\<lambda>bytes. (Some now, Some bytes)) payloads)) batches)
   = (concat (map (received_lines fl now) sent), None)"
proof (induction batches arbitrary: sent)
  case Nil
  then show ?case by simp
next
  case (Cons payloads batches)
  then obtain sent1 sent2 where "sent = sent1 @ sent2"
    "list_all2 (\<lambda>bytes (n, time). decode bytes = Some (Record (message_record n time))) payloads sent1"
    "list_all2 (\<lambda>bytes (n, time). decode bytes = Some (Record (message_record n time))) (concat batches) sent2"
    by (auto simp: list_all2_append1)
  with Cons.IH show ?case by (simp add: consume_records_produced)
qed

lemma stream_loop_produced:
  "list_all2 (\<lambda>bytes (n, time). decode bytes = Some (Record (message_record n time))) payloads sent \<Longrightarrow>
   stream_loop fl decode (map (\<lambda>bytes. Item (Some now) (Some bytes)) payloads)
   = (concat (map (received_lines fl now) sent), None)"
  by (induction rule: list_all2_induct) (auto simp: consume_payload_produced split: prod.splits)

section \<open>Properties\<close>

text \<open>
  C36: The krafka producer numbers its messages 0, 1, 2, ... without a gap, whether a send succeeds or
  not: it makes one iteration per tick up to and with the first that \<open>ctrl_c\<close> ends, serialises the record of
  that number and time in each, logs number and size of those sent, and shuts down in order.
\<close>

theorem producer_numbers_messages:
  assumes "list_all (\<lambda>t. tick_time t \<noteq> None) ts" "length ts < 2 ^ 63"
    and "\<And>n time. encode (message_record n time) \<noteq> None"
  shows "\<exists>r. producer_main pf True flush_ok True encode ts = Ok (r, list_ex tick_ctrl_c ts)
    \<and> run_id r = of_nat (length (ticks_taken ts))
    \<and> run_payloads r = map (nth_payload encode) (enumerate 0 (ticks_taken ts))
    \<and> run_log r = map (nth_line encode) (enumerate 0 (ticks_taken ts))
        @ (if list_ex tick_ctrl_c ts
           then Shutting_down # (if flush_ok then [] else [Flush_failed]) @ [Telemetry] else [])"
  using producer_loop_sends [of ts encode producer_run_init 0 pf] assms
  by (simp add: producer_main_def expect_def producer_run_init_def)

text \<open>A codec for the witnesses: the number as a varint, times as units.\<close>

definition sample_encode :: "(string \<times> (unit, unit) avro) list \<Rightarrow> u8 list option" where
  "sample_encode entries = Some (write_varint [] (field_message_id entries))"

definition sample_decode :: "u8 list \<Rightarrow> (unit, unit) avro option" where
  "sample_decode bytes =
     (case read_varint bytes of Inl _ \<Rightarrow> None | Inr (n, _) \<Rightarrow> Some (Record (message_record n ())))"

definition sample_ticks :: "unit tick list" where
  "sample_ticks =
     [\<lparr>tick_time = Some (), tick_sent = True, tick_ctrl_c = False\<rparr>,
      \<lparr>tick_time = Some (), tick_sent = False, tick_ctrl_c = False\<rparr>,
      \<lparr>tick_time = Some (), tick_sent = True, tick_ctrl_c = True\<rparr>]"

lemma sample_codec:
  "\<exists>bytes. sample_encode (message_record n time) = Some bytes
     \<and> sample_decode bytes = Some (Record (message_record n time))"
  using read_varint_write_varint [of n "[]"] by (simp add: sample_encode_def sample_decode_def)

theorem producer_numbers_messages_witness:
  "\<exists>r. producer_main Debug True True True sample_encode sample_ticks = Ok (r, True)
    \<and> run_id r = 3 \<and> run_log r = [Sent_message 0 1, Send_error, Sent_message 2 1, Shutting_down, Telemetry]"
proof -
  have enc: "sample_encode (message_record n time) \<noteq> None" for n time by (simp add: sample_encode_def)
  have ticks: "list_all (\<lambda>t. tick_time t \<noteq> None) sample_ticks" "length sample_ticks < 2 ^ 63"
    by (simp_all add: sample_ticks_def)
  have "list_ex tick_ctrl_c sample_ticks" "length (ticks_taken sample_ticks) = 3"
    "map (nth_line sample_encode) (enumerate 0 (ticks_taken sample_ticks))
     = [Sent_message 0 1, Send_error, Sent_message 2 1]"
    by code_simp+
  with producer_numbers_messages [of sample_ticks sample_encode Debug True, OF ticks enc]
  show ?thesis by (auto simp: list_ex_iff)
qed

text \<open>
  What the krafka producer sends, both consumers report: if the codec decodes the messages it
  encodes, then over any split of the payloads into polls they log number, text and time of every
  message, in order, each followed by the latency, and nothing else.
\<close>

lemma produced_messages_received:
  fixes encode :: "(string \<times> ('d, 'f) avro) list \<Rightarrow> u8 list option"
  assumes "\<And>n time. \<exists>bytes. encode (message_record n time) = Some bytes
      \<and> decode bytes = Some (Record (message_record n time))"
    and "list_all (\<lambda>t. tick_time t \<noteq> None) ts" "length ts < 2 ^ 63"
    and "producer_main pf True flush_ok True encode ts = Ok (r, stopped)"
    and "concat batches = run_payloads r"
  shows "consumer_loop fl decode close_ok
      (map (\<lambda>payloads. Polled (map (\<lambda>bytes. (Some now, Some bytes)) payloads)) batches) = (reported_lines fl now ts, None)
    \<and> stream_loop fl decode (map (\<lambda>bytes. Item (Some now) (Some bytes)) (run_payloads r))
      = (reported_lines fl now ts, None)"
proof -
  have enc: "encode (message_record n time) \<noteq> None" for n time
    using assms(1) [of n time] by auto
  have dec: "decode (nth_payload encode (k, t)) = Some (Record (message_record (of_nat k) (the (tick_time t))))" for k t
    using assms(1) [of "of_nat k" "the (tick_time t)"] by (auto simp: nth_payload_def)
  let ?ks = "enumerate 0 (ticks_taken ts)"
  have "run_payloads r = map (nth_payload encode) ?ks"
    using producer_loop_sends [of ts encode producer_run_init 0 pf] assms(2-4) enc
    by (auto simp: producer_main_def expect_def producer_run_init_def split: if_splits)
  then have "list_all2 (\<lambda>bytes (n, time). decode bytes = Some (Record (message_record n time)))
      (run_payloads r) (map (\<lambda>(k, t). (of_nat k, the (tick_time t))) ?ks)"
    using dec by (auto simp: list.rel_map intro!: list.rel_refl_strong split: prod.splits)
  with consumer_loop_produced stream_loop_produced assms(5) show ?thesis
    unfolding reported_lines_def by metis
qed

lemma produced_messages_received_witness:
  "\<exists>r. producer_main Debug True True True sample_encode sample_ticks = Ok (r, True)
    \<and> stream_loop \<lparr>f64_zero = (), f64_of_f32 = \<lambda>_. (), f64_minus = \<lambda>_ _. ()\<rparr> sample_decode
        (map (\<lambda>bytes. Item (Some ()) (Some bytes)) (run_payloads r))
      = ([New_message 0 ''Message 0'' (), Latency (), New_message 1 ''Message 1'' (), Latency (),
          New_message 2 ''Message 2'' (), Latency ()], None)"
proof -
  let ?fl = "\<lparr>f64_zero = (), f64_of_f32 = \<lambda>_. (), f64_minus = \<lambda>_ _. ()\<rparr>"
  obtain r where r: "producer_main Debug True True True sample_encode sample_ticks = Ok (r, True)"
  proof -
    have "case producer_main Debug True True True sample_encode sample_ticks of
        Inl _ \<Rightarrow> False | Inr (_, stopped) \<Rightarrow> stopped"
      by code_simp
    then show ?thesis using that by (auto split: sum.splits prod.splits)
  qed
  have ticks: "list_all (\<lambda>t. tick_time t \<noteq> None) sample_ticks" "length sample_ticks < 2 ^ 63"
    by (simp_all add: sample_ticks_def)
  note run = produced_messages_received [OF sample_codec ticks r, where batches = "[run_payloads r]"
      and fl = ?fl and now = "()"]
  have "reported_lines ?fl () sample_ticks = [New_message 0 ''Message 0'' (), Latency (), New_message 1 ''Message 1'' (), Latency (),
       New_message 2 ''Message 2'' (), Latency ()]"
    by code_simp
  with run r show ?thesis by simp
qed

text \<open>
  C38: The rdkafka producer counts its messages in 32 bits: after message 2147483647 a debug build panics
  and a release build goes on with number - 2147483648, where the krafka producer goes on with 2147483648.
\<close>

theorem message_numbers_wrap:
  assumes "tick_time t = Some time" "rd_id r = 0x7FFFFFFF" "run_id q = 0x7FFFFFFF"
    and "\<And>n. encode (message_record_rd n time) \<noteq> None" "\<And>n. encode (message_record n time) \<noteq> None"
  shows "send_message_rd Debug True encode t r = Panic Add_overflow
    \<and> (\<exists>r'. send_message_rd Release True encode t r = Ok r' \<and> sint (rd_id r') = - (2 ^ 31))
    \<and> (\<exists>q'. send_message pf True encode t q = Ok q' \<and> sint (run_id q') = 2 ^ 31)"
proof -
  obtain b where b: "encode (message_record_rd (rd_id r) time) = Some b" using assms(4) by blast
  obtain c where c: "encode (message_record (run_id q) time) = Some c" using assms(5) by blast
  have "add_i32 Debug (rd_id r) 1 = Panic Add_overflow" "add_i32 Release (rd_id r) 1 = Ok 0x80000000"
    "add_i64 pf (run_id q) 1 = Ok 0x80000000"
    unfolding assms(2,3) by (simp_all add: add_i32_def add_i64_def in_i64_def)
  moreover have "sint (0x80000000 :: i32) = - (2 ^ 31)" "sint (0x80000000 :: i64) = 2 ^ 31" by simp_all
  ultimately show ?thesis
    using assms(1) b c
    by (simp add: send_message_rd_def send_message_def expect_def expect_some_def Let_def)
qed

theorem message_numbers_wrap_witness:
  "send_message_rd Debug True sample_encode (hd sample_ticks)
     \<lparr>rd_id = 0x7FFFFFFF, rd_payloads = [], rd_log = []\<rparr> = Panic Add_overflow
   \<and> (\<exists>r'. send_message_rd Release True sample_encode (hd sample_ticks)
        \<lparr>rd_id = 0x7FFFFFFF, rd_payloads = [], rd_log = []\<rparr> = Ok r' \<and> sint (rd_id r') = - (2 ^ 31))
   \<and> (\<exists>q'. send_message Debug True sample_encode (hd sample_ticks)
        \<lparr>run_id = 0x7FFFFFFF, run_payloads = [], run_log = []\<rparr> = Ok q' \<and> sint (run_id q') = 2 ^ 31)"
  by (rule message_numbers_wrap [where time = "()"]) (simp_all add: sample_ticks_def sample_encode_def)

end
