(* ===== verification/Message_Programs.thy ===== *)
theory Message_Programs
  imports Message_Clients
begin

text \<open>
  The four message clients as programs: schema file, environment, client, loop. A codec takes the schema that
  was loaded; creating a client may depend on its configuration, subscribing on the topic.
\<close>

section \<open>Producers\<close>

text \<open>What a producer did: its topic, its run, and whether \<open>ctrl_c\<close> ended it.\<close>

definition krafka_producer ::
  "profile \<Rightarrow> (string \<Rightarrow> 's option) \<Rightarrow> filesystem \<Rightarrow> env \<Rightarrow> (client_config \<Rightarrow> bool) \<Rightarrow> ('s \<Rightarrow> bool) \<Rightarrow>
   ('s \<Rightarrow> (string \<times> ('d, 'f) avro) list \<Rightarrow> u8 list option) \<Rightarrow> bool \<Rightarrow> 'd tick list \<Rightarrow>
   (string \<times> 'd producer_run \<times> bool) res"
where
  "krafka_producer pf parse fs e build_ok record_ok encode flush_ok ts =
     and_then (load_schema parse fs) (\<lambda>schema.
       let c = client_config_krafka e in
       and_then (producer_main pf (build_ok c) flush_ok (record_ok schema) (encode schema) ts)
         (\<lambda>(r, stopped). Ok (cl_topic c, r, stopped)))"

definition rdkafka_producer ::
  "profile \<Rightarrow> (string \<Rightarrow> 's option) \<Rightarrow> filesystem \<Rightarrow> env \<Rightarrow> (client_config \<Rightarrow> bool) \<Rightarrow> ('s \<Rightarrow> bool) \<Rightarrow>
   ('s \<Rightarrow> (string \<times> ('d, 'f) avro) list \<Rightarrow> u8 list option) \<Rightarrow> 'd tick list \<Rightarrow>
   (string \<times> 'd producer_run_rd \<times> bool) res"
where
  "rdkafka_producer pf parse fs e create_ok record_ok encode ts =
     and_then (load_schema_producer_rd parse fs) (\<lambda>schema.
       let c = client_config_rd e in
       and_then (producer_main_rd pf (create_ok c) (record_ok schema) (encode schema) ts)
         (\<lambda>(r, stopped). Ok (cl_topic c, r, stopped)))"

section \<open>Consumers\<close>

text \<open>The krafka consumer passes the parsed reset policy to its client, the other one the string.\<close>

definition krafka_consumer ::
  "(string \<Rightarrow> 's option) \<Rightarrow> filesystem \<Rightarrow> env \<Rightarrow> (client_config \<Rightarrow> offset_reset \<Rightarrow> bool) \<Rightarrow> (string \<Rightarrow> bool) \<Rightarrow>
   ('d, 'f) floats \<Rightarrow> ('s \<Rightarrow> u8 list \<Rightarrow> ('d, 'f) avro option) \<Rightarrow> bool \<Rightarrow> 'd consumer_event list \<Rightarrow>
   'd log list \<times> panic option"
where
  "krafka_consumer parse fs e build_ok subscribe_ok fl decode close_ok events =
     (case load_schema_consumer parse fs of
        Inl p \<Rightarrow> ([], Some p)
      | Inr schema \<Rightarrow>
          let c = client_config_krafka e in
          consumer_main (build_ok c (parse_offset_reset (cl_offset_reset c))) (subscribe_ok (cl_topic c))
            fl (decode schema) close_ok events)"

definition rdkafka_consumer ::
  "(string \<Rightarrow> 's option) \<Rightarrow> filesystem \<Rightarrow> env \<Rightarrow> (client_config \<Rightarrow> bool) \<Rightarrow> (string \<Rightarrow> bool) \<Rightarrow>
   (string \<Rightarrow> bool) \<Rightarrow> ('d, 'f) floats \<Rightarrow> ('s \<Rightarrow> u8 list \<Rightarrow> ('d, 'f) avro option) \<Rightarrow> 'd stream_event list \<Rightarrow>
   'd log list \<times> panic option"
where
  "rdkafka_consumer parse fs e create_ok subscribe_ok metadata_ok fl decode events =
     (case load_schema_rd parse fs of
        Inl p \<Rightarrow> ([], Some p)
      | Inr schema \<Rightarrow>
          let c = client_config_rd e in
          consumer_main_rd (create_ok c) (subscribe_ok (cl_topic c)) (metadata_ok (cl_topic c))
            fl (decode schema) events)"

text \<open>Both crates take the topic from the same variable.\<close>

lemma same_topic: "cl_topic (client_config_krafka e) = cl_topic (client_config_rd e)"
  by (simp add: client_config_krafka_def client_config_rd_def)

lemma load_schema_rd_agrees:
  "(\<And>p. path_text fs p \<noteq> None \<Longrightarrow> path_opens fs p) \<Longrightarrow>
   load_schema_rd parse fs = Ok s \<longleftrightarrow> load_schema parse fs = Ok s"
  unfolding load_schema_rd_def load_schema_def by (rule load_from_rd_ok)

lemma krafka_producer_Ok:
  "krafka_producer pf parse fs e build_ok record_ok encode flush_ok ts = Ok (topic, r, stopped) \<Longrightarrow>
   \<exists>schema. load_schema parse fs = Ok schema \<and> topic = cl_topic (client_config_krafka e)
     \<and> producer_main pf (build_ok (client_config_krafka e)) flush_ok (record_ok schema) (encode schema) ts
       = Ok (r, stopped)"
  by (auto simp: krafka_producer_def Let_def)

lemma producer_main_build_ok: "producer_main pf build_ok f rec enc ts = Ok x \<Longrightarrow> build_ok"
  by (auto simp: producer_main_def expect_def split: if_splits)

text \<open>What the loop sent, given that it got to its end.\<close>

lemma producer_main_sent:
  assumes "producer_main pf True flush_ok True encode ts = Ok (r, stopped)"
    and "\<And>n time. encode (message_record n time) \<noteq> None"
    and "list_all (\<lambda>t. tick_time t \<noteq> None) ts" "length ts < 2 ^ 63"
  shows "run_payloads r = map (nth_payload encode) (enumerate 0 (ticks_taken ts))"
  using producer_loop_sends [of ts encode producer_run_init 0 pf] assms
  by (auto simp: producer_main_def expect_def producer_run_init_def split: if_splits)

lemma payloads_decode:
  assumes "\<And>n time. \<exists>bytes. encode (message_record n time) = Some bytes
      \<and> decode bytes = Some (Record (message_record n time))"
  shows "list_all2 (\<lambda>bytes (n, time). decode bytes = Some (Record (message_record n time)))
      (map (nth_payload encode) ks) (map (\<lambda>(k, t). (of_nat k, the (tick_time t))) ks)"
proof -
  have "decode (nth_payload encode (k, t)) = Some (Record (message_record (of_nat k) (the (tick_time t))))" for k t
    using assms [of "of_nat k" "the (tick_time t)"] by (auto simp: nth_payload_def)
  then show ?thesis by (auto simp: list.rel_map intro!: list.rel_refl_strong split: prod.splits)
qed

section \<open>Properties\<close>

text \<open>
  C37: The message programs end to end: producer and consumers that see the same schema file and environment
  use the same topic, and what the krafka producer sent, however it is split into polls, both consumers log
  in full and in order, number, text, time and latency of every message. Of \<open>apache_avro\<close> this takes that with
  the schema that was loaded, \<open>Record::new\<close> succeeds and a message is encoded and decoded to itself (no other
  schema is asked for anything), of the file system that files that can be read can be opened.
\<close>

theorem message_programs_end_to_end:
  fixes encode :: "'s \<Rightarrow> (string \<times> ('d, 'f) avro) list \<Rightarrow> u8 list option"
  assumes "load_schema parse fs = Ok schema" "record_ok schema"
    and codec: "\<And>n time. \<exists>bytes. encode schema (message_record n time) = Some bytes
      \<and> decode schema bytes = Some (Record (message_record n time))"
    and "\<And>p. path_text fs p \<noteq> None \<Longrightarrow> path_opens fs p"
    and "list_all (\<lambda>t. tick_time t \<noteq> None) ts" "length ts < 2 ^ 63"
    and "krafka_producer pf parse fs e build_ok record_ok encode flush_ok ts = Ok (topic, r, stopped)"
    and "concat batches = run_payloads r"
  shows "krafka_consumer parse fs e (\<lambda>_ _. True) (\<lambda>t. t = topic) fl decode close_ok
      (map (\<lambda>payloads. Polled (map (\<lambda>bytes. (Some now, Some bytes)) payloads)) batches)
      = (reported_lines fl now ts, None)
    \<and> rdkafka_consumer parse fs e (\<lambda>_. True) (\<lambda>t. t = topic) (\<lambda>t. t = topic) fl decode
      (map (\<lambda>bytes. Item (Some now) (Some bytes)) (run_payloads r))
      = (Connected # reported_lines fl now ts, None)"
proof -
  have schema: "load_schema parse fs = Ok schema" "topic = cl_topic (client_config_krafka e)"
    and run: "producer_main pf (build_ok (client_config_krafka e)) flush_ok True (encode schema) ts = Ok (r, stopped)"
    using krafka_producer_Ok [OF assms(7)] assms(1,2) by auto
  have "encode schema (message_record n time) \<noteq> None" for n time
    using codec [of n time] by (metis option.discI)
  note total = this
  from producer_main_build_ok [OF run] run
  have "producer_main pf True flush_ok True (encode schema) ts = Ok (r, stopped)" by (simp only:)
  then have sent: "run_payloads r = map (nth_payload (encode schema)) (enumerate 0 (ticks_taken ts))"
    using total assms(5,6) by (rule producer_main_sent)
  have decodes: "list_all2 (\<lambda>bytes (n, time). decode schema bytes = Some (Record (message_record n time)))
      (run_payloads r) (map (\<lambda>(k, t). (of_nat k, the (tick_time t))) (enumerate 0 (ticks_taken ts)))"
    unfolding sent by (rule payloads_decode [OF codec])
  have rd: "load_schema_rd parse fs = Ok schema"
    using load_schema_rd_agrees [of fs parse schema] assms(4) schema(1) by metis
  have polls: "consumer_loop fl (decode schema) close_ok
      (map (\<lambda>payloads. Polled (map (\<lambda>bytes. (Some now, Some bytes)) payloads)) batches)
      = (reported_lines fl now ts, None)"
    unfolding reported_lines_def by (rule consumer_loop_produced) (simp only: assms(8) decodes)
  have items: "stream_loop fl (decode schema) (map (\<lambda>bytes. Item (Some now) (Some bytes)) (run_payloads r))
      = (reported_lines fl now ts, None)"
    unfolding reported_lines_def by (rule stream_loop_produced [OF decodes])
  show ?thesis
    unfolding krafka_consumer_def rdkafka_consumer_def load_schema_consumer_eq schema rd sum.case Let_def consumer_main_def
      consumer_main_rd_def same_topic
    by (simp add: polls items)
qed

text \<open>
  A file system with the schema at the second path, a parser that knows this schema only, and a codec that works
  with it and fails with any other.
\<close>

definition sample_files :: filesystem where
  "sample_files =
     \<lparr>path_exists = (\<lambda>p. p = ''/app/schemas/message.avsc''), path_opens = (\<lambda>_. True),
      path_text = (\<lambda>_. Some ''schema'')\<rparr>"

definition sample_floats :: "(unit, unit) floats" where
  "sample_floats = \<lparr>f64_zero = (), f64_of_f32 = (\<lambda>_. ()), f64_minus = (\<lambda>_ _. ())\<rparr>"

definition sample_parse :: "string \<Rightarrow> string option" where
  "sample_parse text = (if text = ''schema'' then Some ''message'' else None)"

definition sample_encode_with :: "string \<Rightarrow> (string \<times> (unit, unit) avro) list \<Rightarrow> u8 list option" where
  "sample_encode_with schema values = (if schema = ''message'' then sample_encode values else None)"

definition sample_decode_with :: "string \<Rightarrow> u8 list \<Rightarrow> (unit, unit) avro option" where
  "sample_decode_with schema bytes = (if schema = ''message'' then sample_decode bytes else None)"

lemma sample_files_schema: "load_schema sample_parse sample_files = Ok ''message''"
  by (simp add: load_schema_def schema_paths_def sample_files_def sample_parse_def expect_some_def)

lemma sample_run:
  "\<exists>r. producer_main Debug True True True sample_encode sample_ticks = Ok (r, True)"
proof -
  have "case producer_main Debug True True True sample_encode sample_ticks of
      Inl _ \<Rightarrow> False | Inr (_, stopped) \<Rightarrow> stopped"
    by code_simp
  then show ?thesis by (auto split: sum.splits prod.splits)
qed

theorem message_programs_end_to_end_witness:
  "\<exists>topic r. krafka_producer Debug sample_parse sample_files Map.empty (\<lambda>_. True) (\<lambda>s. s = ''message'')
        sample_encode_with True sample_ticks = Ok (topic, r, True)
    \<and> rdkafka_consumer sample_parse sample_files Map.empty (\<lambda>_. True) (\<lambda>t. t = topic) (\<lambda>t. t = topic) sample_floats
        sample_decode_with (map (\<lambda>bytes. Item (Some ()) (Some bytes)) (run_payloads r))
      = ([Connected, New_message 0 ''Message 0'' (), Latency (), New_message 1 ''Message 1'' (), Latency (),
          New_message 2 ''Message 2'' (), Latency ()], None)"
proof -
  obtain r where "producer_main Debug True True True sample_encode sample_ticks = Ok (r, True)"
    using sample_run by blast
  moreover have with_schema: "sample_encode_with ''message'' = sample_encode" "sample_decode_with ''message'' = sample_decode"
    by (simp_all add: sample_encode_with_def sample_decode_with_def fun_eq_iff)
  ultimately have run: "krafka_producer Debug sample_parse sample_files Map.empty (\<lambda>_. True) (\<lambda>s. s = ''message'')
      sample_encode_with True sample_ticks = Ok (cl_topic (client_config_krafka Map.empty), r, True)"
    by (simp add: krafka_producer_def sample_files_schema Let_def)
  have ticks: "list_all (\<lambda>t. tick_time t \<noteq> None) sample_ticks" "length sample_ticks < 2 ^ 63"
    by (simp_all add: sample_ticks_def)
  have opens: "path_opens sample_files p" for p by (simp add: sample_files_def)
  have codec: "\<exists>bytes. sample_encode_with ''message'' (message_record n time) = Some bytes
      \<and> sample_decode_with ''message'' bytes = Some (Record (message_record n time))" for n time
    unfolding with_schema by (rule sample_codec)
  note * = message_programs_end_to_end [where parse = sample_parse and fs = sample_files and schema = "''message''"
      and record_ok = "\<lambda>s. s = ''message''" and encode = sample_encode_with and decode = sample_decode_with
      and batches = "[run_payloads r]" and fl = sample_floats and now = "()",
      OF sample_files_schema refl codec opens ticks run]
  have "reported_lines sample_floats () sample_ticks
    = [New_message 0 ''Message 0'' (), Latency (), New_message 1 ''Message 1'' (), Latency (),
       New_message 2 ''Message 2'' (), Latency ()]"
    by code_simp
  with * run show ?thesis by simp
qed

end
