(* ===== verification/Spec2Isabelle.thy ===== *)
theory Spec2Isabelle
  imports Krafka_Refinement Rdkafka_Refinement Stream_Programs Message_Programs
begin

text \<open>
  Verification of the Rust programs of kafka-test: four crates that send data through Kafka and process
  it, each written once for the krafka client and once for the rdkafka client. This theory imports the
  whole development and proves the properties that span components.

  \<^bold>\<open>The programs.\<close> \<open>stream-test-krafka\<close> and \<open>stream-test-rust\<close> are a pipeline of three programs each: a
  generator (\<open>src/bin/producer.rs\<close>) writes records of 2 to 5 drawn integers in the Avro array encoding, a
  processor (\<open>src/bin/processor.rs\<close>) polls them on several worker threads and writes the sum of each
  record, a printer (\<open>src/bin/consumer.rs\<close>) shows the sums. In benchmark mode the processor first loads
  fifty million records and reports its throughput. \<open>kafka-test-krafka\<close> and \<open>kafka-test-rust\<close> are a producer
  and a consumer of numbered, time-stamped Avro messages.

  \<^bold>\<open>Theories.\<close>
  \<^item> \<open>Prelude\<close>: words at the Rust widths, panics as values of a sum type, the build profile (\<open>Debug\<close> checks
    overflow, \<open>Release\<close> wraps), and shared lemmas. \<open>Machine\<close>: reachable states, runs of an executable step
    function, and the locale \<open>invariant_machine\<close> (initial states have the invariant, steps keep it).
  \<^item> \<open>Krafka_Varint\<close>, \<open>Rdkafka_Varint\<close>: the two versions of \<open>read_varint\<close> and \<open>write_varint\<close>. Lemmas: zig-zag as
    arithmetic, round trip, length and minimality, exact panics, where the versions agree and differ.
  \<^item> \<open>Array_Codec\<close>: the record format and, as locales, the contracts of a varint codec (\<open>varint_codec\<close>) and of a
    block loop over one (\<open>array_decoder\<close>); sums and truncation are proved there once. \<open>Krafka_Sum\<close> and
    \<open>Rdkafka_Sum\<close> hold the loops of the two processors and interpret the locales on them.
  \<^item> \<open>Krafka_Worker\<close>: one worker of the krafka processor. The record \<open>worker\<close> holds the position of the
    consume loop, \<open>consecutive_empty\<close>, the bounded channel, and \<open>in_flight\<close>, \<open>local_counter\<close> and \<open>channel_open\<close> of
    the produce task; \<open>consume_step\<close> and \<open>produce_step\<close> are their atomic actions, \<open>None\<close> where one has to wait.
    \<open>Krafka_Worker_Inv\<close>: its invariant, kept by every operation, progress and the bound of the drain.
    \<open>Krafka_System\<close>: all workers over \<open>PROCESSED_COUNTER\<close> and \<open>START_NANOS\<close>, interleaved at will.
  \<^item> \<open>Rdkafka_Worker\<close>: the same for the rdkafka processor, whose worker is one loop of poll, sum, send, count.
  \<^item> \<open>Summing_Service\<close>: the abstract contract of a worker, a service that is given records and owes one output
    for each that has one. \<open>Krafka_Refinement\<close> and \<open>Rdkafka_Refinement\<close> show that both worker systems implement it
    (the locales \<open>refinement\<close> of \<open>Machine\<close> and \<open>summing_service\<close>); the krafka one also resolves its
    sends, well or with an error. \<open>Rdkafka_Run\<close>: a run of the rdkafka system that polls all records and stops.
    \<open>Krafka_Termination\<close>: a measure of the work left in the krafka workers, and the end of phase 2.
  \<^item> \<open>Krafka_Loader\<close>: topics, leaders and the load loop of the benchmark. \<open>Stream_Config\<close>, \<open>Text_Format\<close>: the
    environment and the string operations it needs. \<open>Reporting\<close>: progress, elapsed time and the throughput
    counter. \<open>Codec_Copies\<close>: the codec functions that the endpoints repeat, proved equal to those of the processors.
    \<open>Stream_Endpoints\<close>: the loops of generators and printers and the programs around them.
  \<^item> \<open>Krafka_Main\<close>, \<open>Rdkafka_Main\<close>: the two processors as whole programs, from the environment to the result lines.
    \<open>Stream_Programs\<close>: generators and printers as programs, and the two pipelines of three programs each.
  \<^item> \<open>Message_Common\<close>, \<open>Message_Clients\<close>: schema file, Avro values, and the loops of the message producers and
    consumers; \<open>Message_Programs\<close>: the four of them as programs.

  \<^bold>\<open>What is a parameter.\<close> The client libraries, \<open>apache_avro\<close>, the clock, the file system, the random draws and
  the environment: what they return is an argument of the functions or a label of the steps, so that a
  theorem holds for everything they may do. The end-to-end property assumes of the broker that it delivers
  only what was produced, and the message round trip of \<open>apache_avro\<close> that it decodes what it encodes.

  \<^bold>\<open>Loops.\<close> Decoding loops terminate, by the length of what is left to read. The endless loops of workers are
  step relations; those of generators, printers and message clients run over the list of what their
  iterations meet, so that no fuel is needed. The load loops run \<open>TOTAL_RECORDS\<close> times over draws given
  as a function of the index, with the bound of the code. The drain of a worker takes at most 30003 steps: two for each
  of 10000 buffers in the channel, one for each of 10000 in flight, and three to close, end and join; with
  a drained broker a worker in the middle of its loop needs at most four steps more for each record in hand
  and eleven for the polls and the position it is at.

  \<^bold>\<open>What is not modelled.\<close> Sleeps and time-outs, the text of log lines (their data is), the decimal
  formatting of floating-point numbers (\<open>f64\<close> is a type parameter), the tuning options of the clients in the processors, and memory ordering weaker than sequential
  consistency: each atomic variable is accessed by single operations whose results the code combines in
  no other way. A \<open>panic\<close> of a worker drops its runtime at once; the outputs lost with it are in the model.
\<close>

section \<open>Properties across components\<close>

text \<open>
  C3: End to end in the krafka crate: if a worker that has finished was given records that the generator
  sent (the broker delivers what was produced), then the printer, given what the worker sent, prints the
  sum of each of the draws behind those records, in order, as exact integers, and does not panic.
\<close>

theorem end_to_end:
  assumes "run_generator pf True True draws = Ok s" "list_all drawn draws"
    and "reachable (system_init su n) (system_step pf) (g, ws)" "w \<in> set ws" "phase w = Finished"
    and "set (polled w) \<subseteq> Some ` set (gen_sent s)"
  shows "\<exists>yss. set yss \<subseteq> set draws \<and> polled w = map (Some \<circ> write_record write_varint) yss
    \<and> run_printer True True True [Some (map Some (sent w))] = (map (Sum_line \<circ> sum_list) yss, None)
    \<and> map (sint \<circ> sum_list) yss = map sum_of_drawn yss"
proof -
  from polled_drawn [of "polled w" draws] assms(6) run_generator_sent [OF assms(1)] obtain yss
    where yss: "set yss \<subseteq> set draws" "polled w = map (Some \<circ> write_record write_varint) yss" by auto
  have drawn: "list_all drawn yss" using yss(1) assms(2) by (auto simp: list_all_iff)
  from finished_prints [OF reachable_worker_inv [OF assms(3,4)] assms(5) yss(2) drawn] yss
  show ?thesis by blast
qed

theorem end_to_end_witness:
  "run_printer True True True [Some (map Some (sent (sample_worker 18)))] = ([Sum_line 7], None)"
proof -
  obtain s where s: "run_generator Debug True True [[3, 4]] = Ok s" "gen_sent s = [write_record write_varint [3, 4]]"
    using generate_all_sent [of Debug "[[3, 4]]" generator_init]
    by (simp add: run_generator_def expect_def generate_def Let_def add_u64_def generator_init_def)
  have "phase (sample_worker 18) = Finished" "polled (sample_worker 18) = [Some (write_record write_varint [3, 4])]"
    by code_simp+
  moreover have "list_all drawn [[3, 4]]" by (simp add: drawn_def)
  ultimately obtain yss where yss: "set yss \<subseteq> {[3, 4]}" "length yss = 1"
    "run_printer True True True [Some (map Some (sent (sample_worker 18)))] = (map (Sum_line \<circ> sum_list) yss, None)"
    using end_to_end [OF s(1) _ sample_reachable sample_in, of 18] s(2) by fastforce
  then show ?thesis by (cases yss) auto
qed

text \<open>
  C19: On what the generators draw the two crates are interchangeable: they write the same payload, both
  processors put the same bytes on the output topic, and both printers read the exact sum off them.
\<close>

theorem processors_agree:
  assumes "drawn xs"
  shows "write_record write_varint_rd xs = write_record write_varint xs
    \<and> process_record pf (Some (write_record write_varint xs)) = Ok (Some (write_varint [] (sum_list xs)))
    \<and> handled (handle_message pf enq \<lparr>payload = Some (write_record write_varint xs), msg_key = k\<rparr> w)
      = handled w @ [(case k of None \<Rightarrow> [] | Some key \<Rightarrow> key, write_varint [] (sum_list xs), enq)]
    \<and> read_varint (write_varint [] (sum_list xs)) = read_varint_rd pf (write_varint [] (sum_list xs))
    \<and> sint (sum_list xs) = (\<Sum>x \<leftarrow> xs. sint x)"
proof -
  have small: "small_i64 (sum_list xs)"
    using add_all_drawn(2,3) [OF assms] by (simp add: small_i64_def)
  have len: "small_i64 (of_nat (length xs))" "small_i64 0"
    using rd.dom_count [of xs] drawn_block_ok [OF assms] drawn_small [OF assms]
    by (simp_all add: small_i64_def)
  have same: "write_record write_varint_rd xs = write_record write_varint xs"
    using len drawn_small [OF assms]
    by (simp add: rd_codec.write_record_eq kr_codec.write_record_eq write_varint_rd_eq list_all_iff
        cong: map_cong)
  moreover have "handled (handle_message pf enq \<lparr>payload = Some (write_record write_varint xs), msg_key = k\<rparr> w)
      = handled w @ [(case k of None \<Rightarrow> [] | Some key \<Rightarrow> key, write_varint [] (sum_list xs), enq)]"
    using sum_payload_rd_drawn [OF assms, of pf] write_varint_rd_eq [OF small, of "[]"]
    by (simp add: handle_message_def same Let_def)
  moreover have "read_varint (write_varint [] (sum_list xs)) = read_varint_rd pf (write_varint [] (sum_list xs))"
    using read_varint_write_varint [of "sum_list xs" "[]"] read_varint_rd_write_varint [of pf "sum_list xs" "[]"]
    by simp
  ultimately show ?thesis
    using process_record_drawn [OF assms] add_all_drawn(2) [OF assms] by (simp add: sum_of_drawn_def)
qed

theorem processors_agree_witness:
  "write_record write_varint_rd [99, 0, 64] = write_record write_varint [99, 0, 64]
    \<and> process_record Debug (Some (write_record write_varint [99, 0, 64])) = Ok (Some (write_varint [] 163))"
  using processors_agree [of "[99, 0, 64]" Debug] by (simp add: drawn_def)

end
